theory Spec2Isabelle
  imports Main
begin

section \<open>Values of JavaScript\<close>

text \<open>
  Strings are lists of characters. The model covers the code units below 256, so the
  white space class of JavaScript (\<^verbatim>\<open>\s\<close>, \<^verbatim>\<open>trim\<close>) is TAB, LF, VT, FF, CR, SPACE and
  NBSP; \<^verbatim>\<open>toLowerCase\<close> acts on the ASCII letters. A value that may be
  \<^verbatim>\<open>undefined\<close> or \<^verbatim>\<open>null\<close> is an option; a thrown exception is \<open>Inl\<close> of a sum.
\<close>

datatype error = Error string

definition nl :: string where
  "nl = [CHR 0x0A]"

definition dquote :: string where
  "dquote = [CHR 0x22]"

definition js_space :: "char \<Rightarrow> bool" where
  "js_space c = (c \<in> set [CHR 0x09, CHR 0x0A, CHR 0x0B, CHR 0x0C, CHR 0x0D, CHR 0x20, CHR 0xA0])"

definition trim :: "string \<Rightarrow> string" where
  "trim s = rev (dropWhile js_space (rev (dropWhile js_space s)))"

text \<open>Truthiness of a string that may be absent: \<^verbatim>\<open>undefined\<close>, \<^verbatim>\<open>null\<close> and \<^verbatim>\<open>''\<close> are falsy.\<close>

fun truthy :: "string option \<Rightarrow> bool" where
  "truthy None = False"
| "truthy (Some s) = (s \<noteq> [])"

text \<open>\<^verbatim>\<open>a || b\<close> on such values.\<close>

definition js_or :: "string option \<Rightarrow> string option \<Rightarrow> string option" where
  "js_or a b = (if truthy a then a else b)"

definition to_lower :: "char \<Rightarrow> char" where
  "to_lower c =
     (case map_of (zip ''ABCDEFGHIJKLMNOPQRSTUVWXYZ'' ''abcdefghijklmnopqrstuvwxyz'') c of
        Some d \<Rightarrow> d
      | None \<Rightarrow> c)"

definition toLowerCase :: "string \<Rightarrow> string" where
  "toLowerCase s = map to_lower s"

text \<open>\<^verbatim>\<open>s.split(sep)\<close> for a one-character separator: the empty string splits into \<open>['''']\<close>.\<close>

fun split_on :: "char \<Rightarrow> string \<Rightarrow> string list" where
  "split_on sep [] = [[]]"
| "split_on sep (c # cs) =
     (if c = sep then [] # split_on sep cs
      else (case split_on sep cs of
              [] \<Rightarrow> [[c]]
            | x # xs \<Rightarrow> (c # x) # xs))"

text \<open>\<^verbatim>\<open>xs.join(sep)\<close>.\<close>

fun join_with :: "string \<Rightarrow> string list \<Rightarrow> string" where
  "join_with sep [] = []"
| "join_with sep [x] = x"
| "join_with sep (x # y # ys) = x @ sep @ join_with sep (y # ys)"

definition starts_with :: "string \<Rightarrow> string \<Rightarrow> bool" where
  "starts_with pat s = (take (length pat) s = pat)"

definition ends_with :: "string \<Rightarrow> string \<Rightarrow> bool" where
  "ends_with pat s = (length pat \<le> length s \<and> drop (length s - length pat) s = pat)"

fun contains :: "string \<Rightarrow> string \<Rightarrow> bool" where
  "contains pat [] = (pat = [])"
| "contains pat (c # cs) = (starts_with pat (c # cs) \<or> contains pat cs)"

text \<open>\<^verbatim>\<open>s.replace(/pat/g, rep)\<close> for a literal, non-empty pattern: leftmost matches, left to right.\<close>

fun replace_all :: "string \<Rightarrow> string \<Rightarrow> string \<Rightarrow> string" where
  "replace_all pat rep [] = []"
| "replace_all pat rep (c # cs) =
     (if pat \<noteq> [] \<and> starts_with pat (c # cs)
      then rep @ replace_all pat rep (drop (length pat - 1) cs)
      else c # replace_all pat rep cs)"

text \<open>A number inside a template literal: its decimal digits.\<close>

definition digit_char :: "nat \<Rightarrow> char" where
  "digit_char d = char_of (48 + d)"

function show_nat :: "nat \<Rightarrow> string" where
  "show_nat n = (if n < 10 then [digit_char n] else show_nat (n div 10) @ [digit_char (n mod 10)])"
  by pat_completeness auto

termination
  by (relation "measure id") auto

declare show_nat.simps [simp del]

section \<open>Node's path module\<close>

text \<open>
  The functions of \<^verbatim>\<open>path\<close> that the code calls, as Node implements them for POSIX paths.
  \<^verbatim>\<open>basename\<close> drops trailing slashes and returns what follows the last remaining slash.
\<close>

definition slash :: char where
  "slash = CHR ''/''"

definition basename :: "string \<Rightarrow> string" where
  "basename p = rev (takeWhile (\<lambda>c. c \<noteq> slash) (dropWhile (\<lambda>c. c = slash) (rev p)))"

text \<open>
  \<^verbatim>\<open>path.extname\<close>: from the last dot of the basename to its end; empty when there is no
  dot, when the last dot is the first character, and for \<^verbatim>\<open>..\<close>.
\<close>

definition extname :: "string \<Rightarrow> string" where
  "extname p =
     (let b = basename p;
          e = rev (takeWhile (\<lambda>c. c \<noteq> CHR ''.'') (rev b));
          startDot = length b - length e - 1
      in if CHR ''.'' \<notin> set b then []
         else if startDot = 0 then []
         else if b = ''..'' then []
         else CHR ''.'' # e)"

text \<open>\<^verbatim>\<open>path.basename(p, ext)\<close>: the basename without the suffix, unless the suffix is all of it.\<close>

definition basename_ext :: "string \<Rightarrow> string \<Rightarrow> string" where
  "basename_ext p ext =
     (if ext \<noteq> [] \<and> length ext \<le> length p
      then (if ext = p then []
            else (let b = basename p
                  in if ends_with ext b \<and> ext \<noteq> b then take (length b - length ext) b else b))
      else basename p)"

text \<open>\<^verbatim>\<open>path.dirname\<close>.\<close>

definition dirname :: "string \<Rightarrow> string" where
  "dirname p =
     (case p of
        [] \<Rightarrow> ''.''
      | c # cs \<Rightarrow>
          (let hasRoot = (c = slash);
               r = dropWhile (\<lambda>c. c \<noteq> slash) (dropWhile (\<lambda>c. c = slash) (rev cs))
           in case r of
                [] \<Rightarrow> (if hasRoot then ''/'' else ''.'')
              | _ # front \<Rightarrow> (if hasRoot \<and> front = [] then ''//'' else c # rev front)))"

text \<open>
  \<^verbatim>\<open>path.normalize\<close>: the segments between slashes are pushed on a stack; empty segments and
  \<^verbatim>\<open>.\<close> are skipped; \<^verbatim>\<open>..\<close> pops a segment that is not itself \<^verbatim>\<open>..\<close>, and is kept only in a
  relative path with nothing to pop.
\<close>

definition normalize_step :: "bool \<Rightarrow> string list \<Rightarrow> string \<Rightarrow> string list" where
  "normalize_step allowAboveRoot res seg =
     (if seg = [] \<or> seg = ''.'' then res
      else if seg = ''..''
      then (if res \<noteq> [] \<and> last res \<noteq> ''..'' then butlast res
            else if allowAboveRoot then res @ [''..'']
            else res)
      else res @ [seg])"

definition normalizeString :: "string \<Rightarrow> bool \<Rightarrow> string list" where
  "normalizeString p allowAboveRoot = foldl (normalize_step allowAboveRoot) [] (split_on slash p)"

definition normalize :: "string \<Rightarrow> string" where
  "normalize p =
     (if p = [] then ''.''
      else (let isAbsolute = (hd p = slash);
                trailingSeparator = (last p = slash);
                q = join_with ''/'' (normalizeString p (\<not> isAbsolute))
            in if q = [] then (if isAbsolute then ''/'' else if trailingSeparator then ''./'' else ''.'')
               else (if isAbsolute then ''/'' else []) @ q @ (if trailingSeparator then ''/'' else [])))"

text \<open>\<^verbatim>\<open>path.join(a, b)\<close>: the non-empty arguments joined by a slash, normalized.\<close>

definition path_join :: "string \<Rightarrow> string \<Rightarrow> string" where
  "path_join a b =
     (let joined = (if a = [] then b else if b = [] then a else a @ ''/'' @ b)
      in if joined = [] then ''.'' else normalize joined)"

section \<open>The file system\<close>

text \<open>
  The disk: a finite map from the path strings handed to \<^verbatim>\<open>fs\<close> to a file's content or a
  directory mark, as an association list whose first entry for a path is the current one.
  Paths are POSIX, case-sensitive and without links; \<^verbatim>\<open>writeFileSync\<close> and \<^verbatim>\<open>mkdirSync\<close> are
  taken to succeed, and a \<^verbatim>\<open>utf-8\<close> read returns the content as written.
\<close>

datatype fnode = File string | Dir

type_synonym filesystem = "(string \<times> fnode) list"

definition existsSync :: "filesystem \<Rightarrow> string \<Rightarrow> bool" where
  "existsSync fs p = (map_of fs p \<noteq> None)"

definition mkdirSync :: "filesystem \<Rightarrow> string \<Rightarrow> filesystem" where
  "mkdirSync fs p = (p, Dir) # fs"

definition writeFileSync :: "filesystem \<Rightarrow> string \<Rightarrow> string \<Rightarrow> filesystem" where
  "writeFileSync fs p content = (p, File content) # fs"

definition readFileSync :: "filesystem \<Rightarrow> string \<Rightarrow> error + string" where
  "readFileSync fs p =
     (case map_of fs p of
        None \<Rightarrow> Inl (Error (''ENOENT: no such file or directory, open '' @ p))
      | Some Dir \<Rightarrow> Inl (Error ''EISDIR: illegal operation on a directory, read'')
      | Some (File content) \<Rightarrow> Inr content)"

section \<open>The email parser (emailParser.js)\<close>

subsection \<open>HTML to text: the chain of regular-expression replacements\<close>

text \<open>
  \<^verbatim>\<open>/<style[^>]*>[\s\S]*?<\/style>/gi\<close> (and the same for \<^verbatim>\<open>script\<close>) at the head of a string:
  the opening tag name, case-insensitively; any characters but \<^verbatim>\<open>>\<close>; a \<^verbatim>\<open>>\<close>; then, lazily,
  everything up to the first closing tag. The result is what follows the match.
\<close>

definition starts_with_ci :: "string \<Rightarrow> string \<Rightarrow> bool" where
  "starts_with_ci pat s = (map to_lower (take (length pat) s) = pat)"

fun find_after_ci :: "string \<Rightarrow> string \<Rightarrow> string option" where
  "find_after_ci pat [] = (if pat = [] then Some [] else None)"
| "find_after_ci pat (c # cs) =
     (if starts_with_ci pat (c # cs) then Some (drop (length pat) (c # cs))
      else find_after_ci pat cs)"

definition match_block :: "string \<Rightarrow> string \<Rightarrow> string option" where
  "match_block tag s =
     (if starts_with_ci (''<'' @ tag) s
      then (case dropWhile (\<lambda>c. c \<noteq> CHR ''>'') (drop (length tag + 1) s) of
              [] \<Rightarrow> None
            | _ # body \<Rightarrow> find_after_ci (''</'' @ tag @ ''>'') body)
      else None)"

lemma find_after_ci_length: "find_after_ci pat s = Some r \<Longrightarrow> length r \<le> length s"
  by (induction s) (auto split: if_splits)

lemma match_block_length: "match_block tag s = Some r \<Longrightarrow> length r < length s"
proof -
  assume m: "match_block tag s = Some r"
  let ?d = "dropWhile (\<lambda>c. c \<noteq> CHR ''>'') (drop (length tag + 1) s)"
  from m obtain x body where d: "?d = x # body" and f: "find_after_ci (''</'' @ tag @ ''>'') body = Some r"
    by (auto simp: match_block_def split: if_splits list.splits)
  have "length ?d \<le> length (drop (length tag + 1) s)"
    by (rule length_dropWhile_le)
  then have "length body < length s"
    using d by simp
  with find_after_ci_length [OF f] show ?thesis by simp
qed

function strip_blocks :: "string \<Rightarrow> string \<Rightarrow> string" where
  "strip_blocks tag [] = []"
| "strip_blocks tag (c # cs) =
     (case match_block tag (c # cs) of
        Some rest \<Rightarrow> strip_blocks tag rest
      | None \<Rightarrow> c # strip_blocks tag cs)"
  by pat_completeness auto

termination
  by (relation "measure (\<lambda>(tag, s). length s)") (auto dest: match_block_length)

text \<open>
  \<^verbatim>\<open>/<[^>]+>/g\<close> replaced by a space: a \<^verbatim>\<open><\<close>, one or more characters other than \<^verbatim>\<open>>\<close>,
  and a \<^verbatim>\<open>>\<close>.
\<close>

definition match_tag :: "string \<Rightarrow> string option" where
  "match_tag s =
     (case s of
        [] \<Rightarrow> None
      | c # cs \<Rightarrow>
          (if c = CHR ''<'' \<and> takeWhile (\<lambda>c. c \<noteq> CHR ''>'') cs \<noteq> []
           then (case dropWhile (\<lambda>c. c \<noteq> CHR ''>'') cs of
                   [] \<Rightarrow> None
                 | _ # rest \<Rightarrow> Some rest)
           else None))"

lemma match_tag_length: "match_tag s = Some r \<Longrightarrow> length r < length s"
proof (cases s)
  case Nil
  assume "match_tag s = Some r"
  with Nil show ?thesis by (simp add: match_tag_def)
next
  case (Cons c cs)
  assume "match_tag s = Some r"
  with Cons obtain x where d: "dropWhile (\<lambda>c. c \<noteq> CHR ''>'') cs = x # r"
    by (auto simp: match_tag_def split: if_splits list.splits)
  have "length (dropWhile (\<lambda>c. c \<noteq> CHR ''>'') cs) \<le> length cs"
    by (rule length_dropWhile_le)
  with d Cons show ?thesis by simp
qed

function tags_to_spaces :: "string \<Rightarrow> string" where
  "tags_to_spaces [] = []"
| "tags_to_spaces (c # cs) =
     (case match_tag (c # cs) of
        Some rest \<Rightarrow> CHR '' '' # tags_to_spaces rest
      | None \<Rightarrow> c # tags_to_spaces cs)"
  by pat_completeness auto

termination
  by (relation "measure length") (auto dest: match_tag_length)

text \<open>\<^verbatim>\<open>/\s+/g\<close> replaced by a space.\<close>

function collapse_ws :: "string \<Rightarrow> string" where
  "collapse_ws [] = []"
| "collapse_ws (c # cs) =
     (if js_space c then CHR '' '' # collapse_ws (dropWhile js_space cs)
      else c # collapse_ws cs)"
  by pat_completeness auto

termination
  by (relation "measure length") (auto simp: less_Suc_eq_le length_dropWhile_le)

text \<open>The whole chain of \<^verbatim>\<open>parseEmail\<close>, in the order of the source.\<close>

definition html_to_text :: "string \<Rightarrow> string" where
  "html_to_text html =
     trim (collapse_ws
       (replace_all ''&#39;'' [CHR 0x27]
       (replace_all ''&quot;'' dquote
       (replace_all ''&gt;'' ''>''
       (replace_all ''&lt;'' ''<''
       (replace_all ''&amp;'' ''&''
       (replace_all ''&nbsp;'' '' ''
       (tags_to_spaces
       (strip_blocks ''script''
       (strip_blocks ''style'' html))))))))))"

subsection \<open>parseEmail\<close>

text \<open>
  What \<^verbatim>\<open>simpleParser\<close> of the mailparser library returns, as far as \<^verbatim>\<open>parseEmail\<close> reads
  it. \<open>pm_date\<close> holds the \<^verbatim>\<open>toISOString()\<close> rendering of the parsed date.
\<close>

record mail_attachment =
  ma_filename :: "string option"
  ma_contentDisposition :: "string option"
  ma_contentType :: string
  ma_size :: nat
  ma_content :: string

record parsed_mail =
  pm_text :: "string option"
  pm_html :: "string option"
  pm_from_text :: "string option"
  pm_to_text :: "string option"
  pm_cc_text :: "string option"
  pm_subject :: "string option"
  pm_date :: "string option"
  pm_messageId :: "string option"
  pm_inReplyTo :: "string option"
  pm_attachments :: "mail_attachment list"

record attachment =
  att_filename :: string
  att_contentType :: string
  att_size :: nat
  att_content :: string

record email =
  em_filepath :: string
  em_filename :: string
  em_from :: string
  em_to :: "string list"
  em_cc :: "string list"
  em_subject :: string
  em_date :: "string option"
  em_messageId :: "string option"
  em_inReplyTo :: "string option"
  em_bodyText :: string
  em_fullContent :: string
  em_attachments :: "attachment list"
  em_hasAttachments :: bool

text \<open>\<^verbatim>\<open>x || dflt\<close> where the result is used as a string.\<close>

definition or_else :: "string option \<Rightarrow> string \<Rightarrow> string" where
  "or_else a dflt = (case a of Some s \<Rightarrow> (if s = [] then dflt else s) | None \<Rightarrow> dflt)"

text \<open>\<^verbatim>\<open>(x || '').split(',').map(s => s.trim()).filter(Boolean)\<close>.\<close>

definition address_list :: "string option \<Rightarrow> string list" where
  "address_list a = filter (\<lambda>s. s \<noteq> []) (map trim (split_on CHR '','' (or_else a [])))"

definition bodyText_of :: "parsed_mail \<Rightarrow> string" where
  "bodyText_of parsed =
     (if truthy (pm_text parsed) then trim (the (pm_text parsed))
      else if truthy (pm_html parsed) then html_to_text (the (pm_html parsed))
      else [])"

text \<open>
  The header block: the array of lines, some \<^verbatim>\<open>null\<close>, filtered by \<^verbatim>\<open>Boolean\<close> (which
  drops \<^verbatim>\<open>null\<close> and the empty string alike) and joined by newlines.
\<close>

definition headerBlock_of :: "string \<Rightarrow> string list \<Rightarrow> string list \<Rightarrow> string \<Rightarrow> string option \<Rightarrow> string" where
  "headerBlock_of from to cc subject date =
     join_with nl (map the (filter truthy
       [Some (''From: '' @ from),
        Some (''To: '' @ join_with '', '' to),
        (if length cc > 0 then Some (''CC: '' @ join_with '', '' cc) else None),
        Some (''Subject: '' @ subject),
        Some (''Date: '' @ (case date of Some d \<Rightarrow> d | None \<Rightarrow> ''Unknown'')),
        Some ''---'',
        Some '''']))"

definition keep_attachment :: "mail_attachment \<Rightarrow> bool" where
  "keep_attachment att =
     (if ma_contentDisposition att = Some ''inline'' \<and> ma_size att < 10240 then False
      else if \<not> truthy (ma_filename att) then False
      else True)"

definition retain :: "mail_attachment \<Rightarrow> attachment" where
  "retain att =
     \<lparr>att_filename = the (ma_filename att),
      att_contentType = ma_contentType att,
      att_size = ma_size att,
      att_content = ma_content att\<rparr>"

text \<open>The part of \<^verbatim>\<open>parseEmail\<close> after \<^verbatim>\<open>simpleParser\<close> has returned.\<close>

definition build_email :: "string \<Rightarrow> string \<Rightarrow> parsed_mail \<Rightarrow> email" where
  "build_email filepath base parsed =
     (let bodyText = bodyText_of parsed;
          from = or_else (pm_from_text parsed) ''Unknown Sender'';
          to = address_list (pm_to_text parsed);
          cc = address_list (pm_cc_text parsed);
          subject = or_else (pm_subject parsed) ''(No Subject)'';
          date = pm_date parsed;
          headerBlock = headerBlock_of from to cc subject date;
          attachments = map retain (filter keep_attachment (pm_attachments parsed))
      in \<lparr>em_filepath = filepath,
          em_filename = base,
          em_from = from,
          em_to = to,
          em_cc = cc,
          em_subject = subject,
          em_date = date,
          em_messageId = pm_messageId parsed,
          em_inReplyTo = pm_inReplyTo parsed,
          em_bodyText = bodyText,
          em_fullContent = headerBlock @ bodyText,
          em_attachments = attachments,
          em_hasAttachments = (length attachments > 0)\<rparr>)"

subsection \<open>saveAttachments\<close>

text \<open>
  \<^verbatim>\<open>att.filename.replace(/[/\\:*?"<>|]/g, '_').substring(0, 200)\<close>: the characters of the
  class, and the sanitized name.
\<close>

definition reserved :: "char list" where
  "reserved = [CHR ''/'', CHR 0x5C, CHR '':'', CHR ''*'', CHR ''?'', CHR 0x22, CHR ''<'', CHR ''>'', CHR ''|'']"

definition sanitize :: "string \<Rightarrow> string" where
  "sanitize name = take 200 (map (\<lambda>c. if c \<in> set reserved then CHR ''_'' else c) name)"

text \<open>
  The loop of \<^verbatim>\<open>saveAttachments\<close> that looks for a free name. \<open>suffixed\<close> is the candidate
  the body computes for a counter: \<^verbatim>\<open>path.join(outputDir, base + "_" + counter + ext)\<close>.
\<close>

definition suffixed :: "string \<Rightarrow> string \<Rightarrow> nat \<Rightarrow> string" where
  "suffixed outputDir safeName counter =
     (let ext = extname safeName;
          base = basename_ext safeName ext
      in path_join outputDir (base @ ''_'' @ show_nat counter @ ext))"

text \<open>
  The loop ends because the candidates of distinct counters are distinct paths and the disk
  is finite. A name without a slash, other than the empty name, \<^verbatim>\<open>.\<close> and \<^verbatim>\<open>..\<close>, is
  joined to a directory by appending it to the directory's normalized prefix.
\<close>

lemma split_on_not_Nil: "split_on sep s \<noteq> []"
  by (induction s) (auto split: list.splits)

lemma split_on_no_sep: "sep \<notin> set n \<Longrightarrow> split_on sep n = [n]"
  by (induction n) auto

lemma split_on_append: "split_on sep (a @ sep # b) = split_on sep a @ split_on sep b"
  by (induction a) (auto split: list.splits simp: split_on_not_Nil)

lemma join_with_snoc: "join_with sep (xs @ [n]) = concat (map (\<lambda>s. s @ sep) xs) @ n"
  by (induction sep xs rule: join_with.induct) auto

definition plain_name :: "string \<Rightarrow> bool" where
  "plain_name n = (n \<noteq> [] \<and> slash \<notin> set n \<and> n \<noteq> ''.'' \<and> n \<noteq> ''..'')"

definition dir_prefix :: "string \<Rightarrow> string" where
  "dir_prefix d =
     (if d = [] then []
      else (if hd d = slash then ''/'' else [])
           @ concat (map (\<lambda>s. s @ ''/'') (normalizeString d (hd d \<noteq> slash))))"

lemma path_join_plain:
  assumes "plain_name n"
  shows "path_join d n = dir_prefix d @ n"
proof (cases "d = []")
  case True
  from assms have n: "n \<noteq> []" "slash \<notin> set n" "n \<noteq> ''.''" "n \<noteq> ''..''"
    by (auto simp: plain_name_def)
  from n have h: "hd n \<noteq> slash" "last n \<noteq> slash"
    by (metis hd_in_set, metis last_in_set)
  have "normalizeString n b = [n]" for b
    using n by (simp add: normalizeString_def split_on_no_sep normalize_step_def)
  then show ?thesis
    using True n h by (simp add: path_join_def normalize_def dir_prefix_def)
next
  case False
  from assms have n: "n \<noteq> []" "slash \<notin> set n" "n \<noteq> ''.''" "n \<noteq> ''..''"
    by (auto simp: plain_name_def)
  let ?j = "d @ ''/'' @ n"
  have l: "last ?j \<noteq> slash"
    using n by (metis last_appendR last_in_set append_is_Nil_conv)
  have hd: "hd ?j = hd d" using False by simp
  have sp: "split_on slash (d @ CHR ''/'' # n) = split_on slash d @ [n]"
    using split_on_append [of slash d n] n by (simp add: slash_def split_on_no_sep)
  have ns: "normalizeString (d @ CHR ''/'' # n) b = normalizeString d b @ [n]" for b
    using n by (simp add: normalizeString_def sp normalize_step_def)
  show ?thesis
    using False n l hd
    by (simp add: path_join_def normalize_def dir_prefix_def ns join_with_snoc Let_def del: append_assoc)
qed

lemma digit_char_inj: "a < 10 \<Longrightarrow> b < 10 \<Longrightarrow> digit_char a = digit_char b \<Longrightarrow> a = b"
proof -
  assume a: "a < 10" and b: "b < 10" and e: "digit_char a = digit_char b"
  from e have "of_char (char_of (48 + a) :: char) = (of_char (char_of (48 + b) :: char) :: nat)"
    by (simp add: digit_char_def)
  with a b show ?thesis by simp
qed

lemma show_nat_not_Nil: "show_nat n \<noteq> []" "[] \<noteq> show_nat n"
  by (subst show_nat.simps, simp)+

lemma show_nat_inj: "show_nat n = show_nat m \<Longrightarrow> n = m"
proof (induction n arbitrary: m rule: show_nat.induct)
  case (1 n)
  show ?case
  proof (cases "n < 10")
    case True
    then have sn: "show_nat n = [digit_char n]" by (subst show_nat.simps) simp
    show ?thesis
    proof (cases "m < 10")
      case mt: True
      then have "show_nat m = [digit_char m]" by (subst show_nat.simps) simp
      with sn "1.prems" have "digit_char n = digit_char m" by simp
      with True mt show ?thesis by (blast intro: digit_char_inj)
    next
      case mf: False
      then have "show_nat m = show_nat (m div 10) @ [digit_char (m mod 10)]"
        by (subst show_nat.simps) simp
      with sn "1.prems" show ?thesis by (simp add: show_nat_not_Nil)
    qed
  next
    case False
    then have sn: "show_nat n = show_nat (n div 10) @ [digit_char (n mod 10)]"
      by (subst show_nat.simps) simp
    show ?thesis
    proof (cases "m < 10")
      case mt: True
      then have "show_nat m = [digit_char m]" by (subst show_nat.simps) simp
      with sn "1.prems" show ?thesis by (simp add: show_nat_not_Nil)
    next
      case mf: False
      then have sm: "show_nat m = show_nat (m div 10) @ [digit_char (m mod 10)]"
        by (subst show_nat.simps) simp
      from sn sm "1.prems" have e1: "show_nat (n div 10) = show_nat (m div 10)"
        and e2: "digit_char (n mod 10) = digit_char (m mod 10)" by auto
      from "1.IH" [OF False e1] have d: "n div 10 = m div 10" .
      from e2 have "n mod 10 = m mod 10" by (rule digit_char_inj [rotated 2]) simp_all
      with d show ?thesis by (metis div_mult_mod_eq)
    qed
  qed
qed

lemma digit_char_not_slash: "d < 10 \<Longrightarrow> digit_char d \<noteq> slash"
proof
  assume d: "d < 10" and e: "digit_char d = slash"
  from e have "of_char (char_of (48 + d) :: char) = (of_char (CHR ''/'') :: nat)"
    by (simp add: digit_char_def slash_def)
  with d show False by simp
qed

lemma show_nat_no_slash: "slash \<notin> set (show_nat n)"
proof (induction n rule: show_nat.induct)
  case (1 n)
  show ?case
  proof (cases "n < 10")
    case True
    with digit_char_not_slash [of n] show ?thesis by (subst show_nat.simps) auto
  next
    case False
    have "digit_char (n mod 10) \<noteq> slash" by (rule digit_char_not_slash) simp
    with 1 False show ?thesis
      by (subst show_nat.simps) auto
  qed
qed

lemma basename_no_slash: "slash \<notin> set (basename p)"
  by (auto simp: basename_def dest: set_takeWhileD)

lemma extname_no_slash: "slash \<notin> set (extname p)"
proof -
  have "set (rev (takeWhile (\<lambda>c. c \<noteq> CHR ''.'') (rev (basename p)))) \<subseteq> set (basename p)"
    by (auto dest: set_takeWhileD)
  with basename_no_slash [of p] show ?thesis
    by (auto simp: extname_def Let_def slash_def)
qed

lemma basename_ext_no_slash: "slash \<notin> set (basename_ext p ext)"
  using basename_no_slash [of p]
  by (auto simp: basename_ext_def Let_def dest: in_set_takeD)

lemma underscore_not_dots: "CHR ''_'' \<in> set n \<Longrightarrow> n \<noteq> ''.'' \<and> n \<noteq> ''..''"
  by auto

lemma suffixed_name_plain:
  "plain_name (basename_ext s (extname s) @ ''_'' @ show_nat k @ extname s)"
proof -
  let ?n = "basename_ext s (extname s) @ ''_'' @ show_nat k @ extname s"
  have u: "CHR ''_'' \<in> set ?n" by simp
  have "slash \<notin> set ?n"
    using basename_ext_no_slash extname_no_slash show_nat_no_slash by (simp add: slash_def)
  moreover have "?n \<noteq> []" by simp
  moreover have "?n \<noteq> ''.''" "?n \<noteq> ''..''" using underscore_not_dots [OF u] by blast+
  ultimately show ?thesis by (simp add: plain_name_def)
qed

lemma suffixed_eq: "suffixed d s k = dir_prefix d @ basename_ext s (extname s) @ ''_'' @ show_nat k @ extname s"
  using path_join_plain [OF suffixed_name_plain, of d s k] by (simp add: suffixed_def Let_def)

lemma suffixed_inj: "suffixed d s k = suffixed d s k' \<Longrightarrow> k = k'"
  by (simp add: suffixed_eq show_nat_inj)

lemma finite_taken: "finite {k. existsSync fs (suffixed d s k)}"
proof -
  have "{k. existsSync fs (suffixed d s k)} = (\<lambda>k. suffixed d s k) -` dom (map_of fs)"
    by (auto simp: existsSync_def)
  moreover have "inj (\<lambda>k. suffixed d s k)"
    by (rule injI) (rule suffixed_inj)
  ultimately show ?thesis
    by (simp add: finite_vimageI finite_dom_map_of)
qed

lemma taken_from_step:
  "card {k. c \<le> k \<and> existsSync fs (suffixed d s k)} =
     card {k. Suc c \<le> k \<and> existsSync fs (suffixed d s k)} + (if existsSync fs (suffixed d s c) then 1 else 0)"
proof -
  let ?A = "{k. Suc c \<le> k \<and> existsSync fs (suffixed d s k)}"
  have fin: "finite ?A"
    by (rule finite_subset [OF _ finite_taken [of fs d s]]) auto
  show ?thesis
  proof (cases "existsSync fs (suffixed d s c)")
    case True
    then have "{k. c \<le> k \<and> existsSync fs (suffixed d s k)} = insert c ?A"
      by (auto simp: le_Suc_eq)
    moreover have "c \<notin> ?A" by simp
    ultimately show ?thesis using fin True by simp
  next
    case False
    then have "{k. c \<le> k \<and> existsSync fs (suffixed d s k)} = ?A"
      by (auto simp: Suc_le_eq order_le_less)
    with False show ?thesis by simp
  qed
qed

text \<open>
  \<^verbatim>\<open>while (fs.existsSync(finalPath)) { finalPath = ...; counter++ }\<close>, on the loop's state
  \<open>finalPath\<close> and \<open>counter\<close>.
\<close>

function free_path :: "filesystem \<Rightarrow> string \<Rightarrow> string \<Rightarrow> string \<Rightarrow> nat \<Rightarrow> string" where
  "free_path fs outputDir safeName finalPath counter =
     (if existsSync fs finalPath
      then free_path fs outputDir safeName (suffixed outputDir safeName counter) (counter + 1)
      else finalPath)"
  by pat_completeness auto

termination
proof (relation "measure (\<lambda>(fs, d, s, p, c).
         card {k. c \<le> k \<and> existsSync fs (suffixed d s k)} + (if existsSync fs p then 1 else 0))")
  show "wf (measure (\<lambda>(fs, d, s, p, c).
         card {k. c \<le> k \<and> existsSync fs (suffixed d s k)} + (if existsSync fs p then 1 else 0)))"
    by simp
next
  fix fs :: filesystem and outputDir safeName finalPath :: string and counter :: nat
  assume "existsSync fs finalPath"
  then show "((fs, outputDir, safeName, suffixed outputDir safeName counter, counter + 1),
              (fs, outputDir, safeName, finalPath, counter))
             \<in> measure (\<lambda>(fs, d, s, p, c).
                 card {k. c \<le> k \<and> existsSync fs (suffixed d s k)} + (if existsSync fs p then 1 else 0))"
    using taken_from_step [of counter fs outputDir safeName] by simp
qed

declare free_path.simps [simp del]

text \<open>\<^verbatim>\<open>saveAttachments\<close>: the body of the \<^verbatim>\<open>for\<close> loop, on the disk and the list saved so far.\<close>

record saved_file =
  sv_filename :: string
  sv_filepath :: string
  sv_contentType :: string
  sv_size :: nat

fun save_each :: "string \<Rightarrow> attachment list \<Rightarrow> filesystem \<Rightarrow> saved_file list \<Rightarrow> saved_file list \<times> filesystem" where
  "save_each outputDir [] fs saved = (saved, fs)"
| "save_each outputDir (att # atts) fs saved =
     (let safeName = sanitize (att_filename att);
          filepath = path_join outputDir safeName;
          finalPath = free_path fs outputDir safeName filepath 1;
          fs' = writeFileSync fs finalPath (att_content att)
      in save_each outputDir atts fs'
           (saved @ [\<lparr>sv_filename = basename finalPath,
                       sv_filepath = finalPath,
                       sv_contentType = att_contentType att,
                       sv_size = att_size att\<rparr>]))"

definition ensure_dir :: "filesystem \<Rightarrow> string \<Rightarrow> filesystem" where
  "ensure_dir fs outputDir = (if \<not> existsSync fs outputDir then mkdirSync fs outputDir else fs)"

definition saveAttachments :: "attachment list \<Rightarrow> string \<Rightarrow> filesystem \<Rightarrow> saved_file list \<times> filesystem" where
  "saveAttachments attachments outputDir fs =
     save_each outputDir attachments (ensure_dir fs outputDir) []"

section \<open>The store, the parser and the extractors\<close>

text \<open>
  Modelled from the spec: the store (\<^verbatim>\<open>db/queries.js\<close> is not among the sources). The
  specification gives it as \<^verbatim>\<open>exists(filepath) \<rightarrow> bool\<close> and \<^verbatim>\<open>create(record) \<rightarrow> id\<close> over
  transcript records \<^verbatim>\<open>{id, filename, filepath, rawContent, durationMinutes, callDate, context}\<close>.
  The model is the list of records in order of creation, each with its id (its position);
  \<^verbatim>\<open>create\<close> appends, with no uniqueness constraint of its own, so that nothing proved below
  rests on the store refusing a duplicate.
\<close>

record transcript =
  tr_filename :: string
  tr_filepath :: string
  tr_rawContent :: string
  tr_durationMinutes :: "nat option"
  tr_callDate :: "string option"
  tr_context :: "string option"

type_synonym database = "(nat \<times> transcript) list"

definition transcriptExists :: "database \<Rightarrow> string \<Rightarrow> bool" where
  "transcriptExists db filepath = (filepath \<in> set (map (\<lambda>(i, r). tr_filepath r) db))"

definition createTranscript :: "database \<Rightarrow> transcript \<Rightarrow> nat \<times> database" where
  "createTranscript db r = (length db, db @ [(length db, r)])"

text \<open>
  What the watcher is given and cannot be read from the sources: \<^verbatim>\<open>parseTranscript\<close> and
  \<^verbatim>\<open>parseFilenameMetadata\<close> (\<^verbatim>\<open>parser.js\<close>), the libraries that decode a message, a PDF
  (pages of text) and a DOCX from a file's bytes, and the clock (\<^verbatim>\<open>new Date().toISOString()\<close>).
  They are parameters: every theorem holds for all of them.
\<close>

record parsed_transcript =
  p_filename :: string
  p_rawContent :: string
  p_durationMinutes :: "nat option"
  p_callDate :: "string option"
  p_context :: "string option"

record filename_meta =
  fm_date :: "string option"
  fm_callType :: "string option"

record env =
  parseTranscript :: "string \<Rightarrow> error + parsed_transcript"
  parseFilenameMetadata :: "string \<Rightarrow> filename_meta"
  simpleParser :: "string \<Rightarrow> error + parsed_mail"
  pdfPages :: "string \<Rightarrow> error + string list"
  docxRawText :: "string \<Rightarrow> error + string"
  now :: string

text \<open>\<^verbatim>\<open>extractors.js\<close>: the text of the pages joined by newlines; the raw text of a DOCX.\<close>

definition extractPdfText :: "env \<Rightarrow> filesystem \<Rightarrow> string \<Rightarrow> error + string" where
  "extractPdfText env fs filePath =
     (case readFileSync fs filePath of
        Inl e \<Rightarrow> Inl e
      | Inr buffer \<Rightarrow>
          (case pdfPages env buffer of
             Inl e \<Rightarrow> Inl e
           | Inr pages \<Rightarrow> Inr (join_with nl pages)))"

definition extractDocxText :: "env \<Rightarrow> filesystem \<Rightarrow> string \<Rightarrow> error + string" where
  "extractDocxText env fs filePath =
     (case readFileSync fs filePath of
        Inl e \<Rightarrow> Inl e
      | Inr buffer \<Rightarrow> docxRawText env buffer)"

text \<open>\<^verbatim>\<open>parseEmail\<close>: read the file, parse it, build the result.\<close>

definition parseEmail :: "env \<Rightarrow> filesystem \<Rightarrow> string \<Rightarrow> error + email" where
  "parseEmail env fs filepath =
     (case readFileSync fs filepath of
        Inl e \<Rightarrow> Inl e
      | Inr raw \<Rightarrow>
          (case simpleParser env raw of
             Inl e \<Rightarrow> Inl e
           | Inr parsed \<Rightarrow> Inr (build_email filepath (basename filepath) parsed)))"

section \<open>The watcher (watcher.js)\<close>

definition SUPPORTED_EXTENSIONS :: "string list" where
  "SUPPORTED_EXTENSIONS = [''.txt'', ''.md'', ''.json'', ''.srt'', ''.pdf'', ''.docx'', ''.eml'']"

definition ATTACHMENT_EXTENSIONS :: "string list" where
  "ATTACHMENT_EXTENSIONS = [''.pdf'', ''.docx'', ''.txt'', ''.md'', ''.csv'']"

text \<open>
  The ignore patterns. \<^verbatim>\<open>/(^|[\/\\])\../\<close> matches where a dot stands at the start or after a
  slash or backslash and is followed by a character that is not a line terminator; the
  patterns with \<^verbatim>\<open>$\<close> test the end of the string; \<^verbatim>\<open>/~\$.*/\<close> tests for \<^verbatim>\<open>~$\<close> anywhere.
\<close>

fun re_dotfile_from :: "bool \<Rightarrow> string \<Rightarrow> bool" where
  "re_dotfile_from boundary [] = False"
| "re_dotfile_from boundary (c # cs) =
     ((boundary \<and> c = CHR ''.'' \<and> cs \<noteq> [] \<and> hd cs \<notin> set [CHR 0x0A, CHR 0x0D])
      \<or> re_dotfile_from (c = CHR ''/'' \<or> c = CHR 0x5C) cs)"

definition IGNORED_PATTERNS :: "(string \<Rightarrow> bool) list" where
  "IGNORED_PATTERNS =
     [re_dotfile_from True,
      ends_with ''.tmp'',
      ends_with ''.gsheet'',
      ends_with ''.gdoc'',
      contains ''~$'',
      ends_with ''.crdownload'',
      ends_with ''.part'']"

definition shouldIgnore :: "string \<Rightarrow> bool" where
  "shouldIgnore filepath =
     (let filename = basename filepath
      in list_ex (\<lambda>pattern. pattern filename \<or> pattern filepath) IGNORED_PATTERNS)"

text \<open>
  The options of \<^verbatim>\<open>startWatcher\<close>, and everything a handler can change: the store, the disk,
  the records handed to \<^verbatim>\<open>processTranscript\<close>, the calls of \<^verbatim>\<open>onNewFile\<close> (id and path) and of
  \<^verbatim>\<open>onError\<close> (message and path), and the console's lines. A handler is modelled as running
  from its event to its end without another one in between. The dash of the source's
  log lines is written \<^verbatim>\<open>-\<close>.
\<close>

record options =
  has_onNewFile :: bool
  has_onError :: bool
  processImmediately :: bool

record world =
  db :: database
  disk :: filesystem
  processing :: "nat list"
  newFiles :: "(nat \<times> string) list"
  errorsSeen :: "(string \<times> string) list"
  logs :: "string list"

definition console_log :: "string \<Rightarrow> world \<Rightarrow> world" where
  "console_log line w = w\<lparr>logs := logs w @ [line]\<rparr>"

definition message :: "error \<Rightarrow> string" where
  "message e = (case e of Error m \<Rightarrow> m)"

text \<open>
  The three calls that follow \<^verbatim>\<open>createTranscript\<close>, each with its guard:
  \<^verbatim>\<open>if (processImmediately) processTranscript(id)\<close>, \<^verbatim>\<open>if (onNewFile) onNewFile({...})\<close> and
  \<^verbatim>\<open>if (onError) onError(err, filepath)\<close>. The callbacks record their calls.
  Modelled from the spec: \<^verbatim>\<open>processTranscript\<close> (\<^verbatim>\<open>processing/processor.js\<close> is not among the
  sources) is the analysis dispatcher \<^verbatim>\<open>analyze(recordId)\<close>, which ingestion does not await:
  the id joins a queue.
\<close>

definition processTranscript :: "options \<Rightarrow> nat \<Rightarrow> world \<Rightarrow> world" where
  "processTranscript opts transcriptId w =
     (if processImmediately opts then w\<lparr>processing := processing w @ [transcriptId]\<rparr> else w)"

definition onNewFile :: "options \<Rightarrow> nat \<Rightarrow> string \<Rightarrow> world \<Rightarrow> world" where
  "onNewFile opts transcriptId filepath w =
     (if has_onNewFile opts then w\<lparr>newFiles := newFiles w @ [(transcriptId, filepath)]\<rparr> else w)"

definition onError :: "options \<Rightarrow> error \<Rightarrow> string \<Rightarrow> world \<Rightarrow> world" where
  "onError opts err filepath w =
     (if has_onError opts then w\<lparr>errorsSeen := errorsSeen w @ [(message err, filepath)]\<rparr> else w)"

definition store :: "transcript \<Rightarrow> world \<Rightarrow> nat \<times> world" where
  "store r w = (let (transcriptId, db') = createTranscript (db w) r in (transcriptId, w\<lparr>db := db'\<rparr>))"

text \<open>The attachment loop of the email branch (lines 125 to 191): one attachment, then the list.\<close>

definition attachmentHeader :: "email \<Rightarrow> saved_file \<Rightarrow> string" where
  "attachmentHeader email att =
     join_with nl
       [''[Attachment from email]'',
        ''Email Subject: '' @ em_subject email,
        ''Email From: '' @ em_from email,
        ''Email Date: '' @ (case em_date email of Some d \<Rightarrow> d | None \<Rightarrow> ''Unknown''),
        ''Attachment: '' @ sv_filename att @ '' ('' @ sv_contentType att @ '')'',
        ''---'',
        '''']"

definition attachmentText :: "env \<Rightarrow> filesystem \<Rightarrow> string \<Rightarrow> saved_file \<Rightarrow> error + string" where
  "attachmentText env fs attExt att =
     (if attExt = ''.pdf'' then extractPdfText env fs (sv_filepath att)
      else if attExt = ''.docx'' then extractDocxText env fs (sv_filepath att)
      else readFileSync fs (sv_filepath att))"

definition attachment_record :: "env \<Rightarrow> email \<Rightarrow> saved_file \<Rightarrow> string \<Rightarrow> transcript" where
  "attachment_record env email att text =
     \<lparr>tr_filename = sv_filename att,
      tr_filepath = sv_filepath att,
      tr_rawContent = attachmentHeader email att @ text,
      tr_durationMinutes = None,
      tr_callDate = Some (case em_date email of Some d \<Rightarrow> d | None \<Rightarrow> now env),
      tr_context = Some (''Attachment: '' @ sv_filename att @ '' (from '' @ dquote
                         @ em_subject email @ dquote @ '')'')\<rparr>"

definition process_attachment :: "env \<Rightarrow> options \<Rightarrow> email \<Rightarrow> saved_file \<Rightarrow> world \<Rightarrow> world" where
  "process_attachment env opts email att w =
     (let attExt = toLowerCase (extname (sv_filename att))
      in if attExt \<notin> set ATTACHMENT_EXTENSIONS
         then console_log (''Skipping unsupported attachment: '' @ sv_filename att
                           @ '' ('' @ sv_contentType att @ '')'') w
         else if transcriptExists (db w) (sv_filepath att)
         then console_log (''Attachment already processed: '' @ sv_filename att) w
         else (case attachmentText env (disk w) attExt att of
                 Inl attErr \<Rightarrow>
                   console_log (''Failed to process attachment '' @ sv_filename att @ '': '' @ message attErr) w
               | Inr text \<Rightarrow>
                   if trim text = []
                   then console_log (''Empty attachment content: '' @ sv_filename att @ '', skipping'') w
                   else (let (attTranscriptId, w1) = store (attachment_record env email att text) w;
                             w2 = console_log (''  Attachment ingested: '' @ show_nat attTranscriptId
                                               @ '' - '' @ sv_filename att) w1;
                             w3 = processTranscript opts attTranscriptId w2
                         in onNewFile opts attTranscriptId (sv_filepath att) w3)))"

fun process_attachments :: "env \<Rightarrow> options \<Rightarrow> email \<Rightarrow> saved_file list \<Rightarrow> world \<Rightarrow> world" where
  "process_attachments env opts email [] w = w"
| "process_attachments env opts email (att # savedFiles) w =
     process_attachments env opts email savedFiles (process_attachment env opts email att w)"

text \<open>The email branch (lines 86 to 199).\<close>

definition email_record :: "env \<Rightarrow> string \<Rightarrow> email \<Rightarrow> transcript" where
  "email_record env filepath email =
     \<lparr>tr_filename = em_filename email,
      tr_filepath = filepath,
      tr_rawContent = em_fullContent email,
      tr_durationMinutes = None,
      tr_callDate = Some (case em_date email of Some d \<Rightarrow> d | None \<Rightarrow> now env),
      tr_context = Some (''Email: '' @ em_subject email)\<rparr>"

definition ingest_email_body :: "env \<Rightarrow> options \<Rightarrow> string \<Rightarrow> email \<Rightarrow> world \<Rightarrow> world" where
  "ingest_email_body env opts filepath email w =
     (let (emailTranscriptId, w1) = store (email_record env filepath email) w;
          w2 = console_log (''Email ingested: '' @ show_nat emailTranscriptId @ '' - '' @ dquote
                            @ em_subject email @ dquote @ '' from '' @ em_from email) w1;
          w3 = processTranscript opts emailTranscriptId w2
      in onNewFile opts emailTranscriptId filepath w3)"

definition ingest_attachments :: "env \<Rightarrow> options \<Rightarrow> string \<Rightarrow> email \<Rightarrow> world \<Rightarrow> world" where
  "ingest_attachments env opts filepath email w =
     (let attachDir = path_join (dirname filepath) ''.prism-attachments'';
          (savedFiles, disk') = saveAttachments (em_attachments email) attachDir (disk w)
      in process_attachments env opts email savedFiles (w\<lparr>disk := disk'\<rparr>))"

definition handle_email :: "env \<Rightarrow> options \<Rightarrow> string \<Rightarrow> world \<Rightarrow> world" where
  "handle_email env opts filepath w =
     (case parseEmail env (disk w) filepath of
        Inl err \<Rightarrow>
          onError opts err filepath
            (console_log (''Email parsing failed for '' @ filepath @ '': '' @ message err) w)
      | Inr email \<Rightarrow>
          if trim (em_fullContent email) = []
          then console_log (''Empty email content from '' @ filepath @ '', skipping'') w
          else (let w4 = ingest_email_body env opts filepath email w
                in if em_hasAttachments email
                   then ingest_attachments env opts filepath email w4
                   else w4))"

text \<open>The PDF/DOCX branch (lines 203 to 246).\<close>

definition handle_document :: "env \<Rightarrow> options \<Rightarrow> string \<Rightarrow> string \<Rightarrow> world \<Rightarrow> world" where
  "handle_document env opts ext filepath w =
     (case (if ext = ''.pdf'' then extractPdfText env (disk w) filepath
            else extractDocxText env (disk w) filepath) of
        Inl err \<Rightarrow>
          onError opts err filepath
            (console_log (''Text extraction failed for '' @ filepath @ '': '' @ message err) w)
      | Inr extractedText \<Rightarrow>
          if trim extractedText = []
          then console_log (''Empty content from '' @ filepath @ '', skipping'') w
          else (let filename = basename filepath;
                    filenameMeta = parseFilenameMetadata env filename;
                    (transcriptId, w1) =
                      store \<lparr>tr_filename = filename,
                             tr_filepath = filepath,
                             tr_rawContent = extractedText,
                             tr_durationMinutes = None,
                             tr_callDate = js_or (fm_date filenameMeta) (Some (now env)),
                             tr_context = js_or (fm_callType filenameMeta) (Some (''Watched file: '' @ filename))\<rparr> w;
                    w2 = console_log (''PDF/DOCX transcript saved: '' @ show_nat transcriptId) w1;
                    w3 = processTranscript opts transcriptId w2
                in onNewFile opts transcriptId filepath w3))"

text \<open>The branch of the text formats (lines 249 to 283).\<close>

definition handle_text :: "env \<Rightarrow> options \<Rightarrow> string \<Rightarrow> world \<Rightarrow> world" where
  "handle_text env opts filepath w =
     (case parseTranscript env filepath of
        Inl err \<Rightarrow>
          onError opts err filepath
            (console_log (''Error processing file '' @ filepath @ '': '' @ message err) w)
      | Inr parsed \<Rightarrow>
          (let filenameMeta = parseFilenameMetadata env (p_filename parsed);
               (transcriptId, w1) =
                 store \<lparr>tr_filename = p_filename parsed,
                        tr_filepath = filepath,
                        tr_rawContent = p_rawContent parsed,
                        tr_durationMinutes = p_durationMinutes parsed,
                        tr_callDate = js_or (fm_date filenameMeta) (p_callDate parsed),
                        tr_context = js_or (fm_callType filenameMeta) (p_context parsed)\<rparr> w;
               w2 = console_log (''Transcript saved: '' @ show_nat transcriptId) w1;
               w3 = (if processImmediately opts
                     then processTranscript opts transcriptId
                            (console_log (''Queuing for processing: '' @ show_nat transcriptId) w2)
                     else w2)
           in onNewFile opts transcriptId filepath w3))"

text \<open>The handler of the watcher's \<^verbatim>\<open>add\<close> event.\<close>

definition onAdd :: "env \<Rightarrow> options \<Rightarrow> string \<Rightarrow> world \<Rightarrow> world" where
  "onAdd env opts filepath w =
     (let ext = toLowerCase (extname filepath)
      in if ext \<notin> set SUPPORTED_EXTENSIONS
         then console_log (''Skipping unsupported file: '' @ filepath) w
         else if shouldIgnore filepath
         then console_log (''Skipping ignored file: '' @ filepath) w
         else if transcriptExists (db w) filepath
         then console_log (''Already processed: '' @ filepath) w
         else (let w0 = console_log (''New transcript detected: '' @ filepath) w
               in if ext = ''.eml'' then handle_email env opts filepath w0
                  else if ext = ''.pdf'' \<or> ext = ''.docx'' then handle_document env opts ext filepath w0
                  else handle_text env opts filepath w0))"

text \<open>
  \<^verbatim>\<open>importFolder\<close>: one pass of the loop over the listing that \<^verbatim>\<open>readdirSync\<close> returned, and
  the loop. An entry of the result is \<^verbatim>\<open>{transcriptId, filepath, success: true}\<close> or
  \<^verbatim>\<open>{filepath, success: false, error}\<close>.
\<close>

datatype import_result = Imported nat string | Failed string string

definition import_file :: "env \<Rightarrow> string \<Rightarrow> string \<Rightarrow> world \<times> import_result list \<Rightarrow> world \<times> import_result list" where
  "import_file env folderPath file acc =
     (let (w, results) = acc;
          filepath = path_join folderPath file;
          ext = toLowerCase (extname file)
      in if ext \<notin> set SUPPORTED_EXTENSIONS then (w, results)
         else if shouldIgnore filepath then (w, results)
         else if transcriptExists (db w) filepath then (w, results)
         else (case parseTranscript env filepath of
                 Inl err \<Rightarrow>
                   (console_log (''Failed to import '' @ file @ '': '' @ message err) w,
                    results @ [Failed filepath (message err)])
               | Inr parsed \<Rightarrow>
                   (let filenameMeta = parseFilenameMetadata env (p_filename parsed);
                        (transcriptId, w1) =
                          store \<lparr>tr_filename = p_filename parsed,
                                 tr_filepath = filepath,
                                 tr_rawContent = p_rawContent parsed,
                                 tr_durationMinutes = p_durationMinutes parsed,
                                 tr_callDate = js_or (fm_date filenameMeta) (p_callDate parsed),
                                 tr_context = js_or (fm_callType filenameMeta) (p_context parsed)\<rparr> w
                    in (console_log (''Imported: '' @ file) w1,
                        results @ [Imported transcriptId filepath]))))"


section \<open>Notions used in the statements\<close>

text \<open>The paths of the records of a store, in order.\<close>

definition paths :: "database \<Rightarrow> string list" where
  "paths d = map (\<lambda>(i, r). tr_filepath r) d"

text \<open>Growth of the store by records whose paths were not there: what every branch does.\<close>

definition grows :: "database \<Rightarrow> database \<Rightarrow> bool" where
  "grows d d' = (\<exists>new. d' = d @ new \<and> distinct (paths new) \<and> set (paths new) \<inter> set (paths d) = {})"


text \<open>The records a step added to the store.\<close>

definition created :: "world \<Rightarrow> world \<Rightarrow> transcript list" where
  "created w w' = map snd (drop (length (db w)) (db w'))"

text \<open>A record whose date and context were chosen with the filename's metadata first.\<close>

definition filename_first :: "env \<Rightarrow> transcript \<Rightarrow> bool" where
  "filename_first env r =
     (\<exists>callDate1 context1.
        tr_callDate r = js_or (fm_date (parseFilenameMetadata env (tr_filename r))) callDate1
        \<and> tr_context r = js_or (fm_callType (parseFilenameMetadata env (tr_filename r))) context1)"

text \<open>What marks a record as made from a staged attachment of the email.\<close>

definition attachment_of :: "env \<Rightarrow> email \<Rightarrow> saved_file list \<Rightarrow> transcript \<Rightarrow> bool" where
  "attachment_of env email savedFiles r =
     (\<exists>att \<in> set savedFiles. \<exists>t. trim t \<noteq> [] \<and> r = attachment_record env email att t)"


text \<open>The path the loop's body chooses for an attachment on a disk, and the entry it appends.\<close>

definition final_path :: "string \<Rightarrow> filesystem \<Rightarrow> attachment \<Rightarrow> string" where
  "final_path outputDir fs att =
     free_path fs outputDir (sanitize (att_filename att))
       (path_join outputDir (sanitize (att_filename att))) 1"

definition staged :: "string \<Rightarrow> filesystem \<Rightarrow> attachment \<Rightarrow> saved_file" where
  "staged outputDir fs att =
     \<lparr>sv_filename = basename (final_path outputDir fs att),
      sv_filepath = final_path outputDir fs att,
      sv_contentType = att_contentType att,
      sv_size = att_size att\<rparr>"

text \<open>The state of the loop after the attachments \<open>seen\<close>, started on the disk \<open>fs0\<close>.\<close>

definition staging_inv :: "string \<Rightarrow> filesystem \<Rightarrow> attachment list \<Rightarrow> filesystem \<Rightarrow> saved_file list \<Rightarrow> bool" where
  "staging_inv outputDir fs0 seen fs saved =
     (map sv_contentType saved = map att_contentType seen
      \<and> map sv_size saved = map att_size seen
      \<and> distinct (map sv_filepath saved)
      \<and> (\<forall>e \<in> set saved. \<not> existsSync fs0 (sv_filepath e) \<and> existsSync fs (sv_filepath e))
      \<and> (\<forall>p. p \<notin> set (map sv_filepath saved) \<longrightarrow> map_of fs p = map_of fs0 p)
      \<and> map (\<lambda>e. map_of fs (sv_filepath e)) saved = map (\<lambda>a. Some (File (att_content a))) seen
      \<and> list_all2 (\<lambda>e a. sv_filename e = basename (sv_filepath e)
                          \<and> (sv_filepath e = path_join outputDir (sanitize (att_filename a))
                             \<or> (\<exists>k\<ge>1. sv_filepath e = suffixed outputDir (sanitize (att_filename a)) k)))
           saved seen)"

text \<open>A path directly inside the directory, under a name without reserved characters.\<close>

definition inside :: "string \<Rightarrow> saved_file \<Rightarrow> bool" where
  "inside outputDir e =
     (sv_filepath e = dir_prefix outputDir @ sv_filename e
      \<and> plain_name (sv_filename e)
      \<and> set (sv_filename e) \<inter> set reserved = {})"

definition inside_inv :: "string \<Rightarrow> filesystem \<Rightarrow> attachment list \<Rightarrow> filesystem \<Rightarrow> saved_file list \<Rightarrow> bool" where
  "inside_inv outputDir fs0 seen fs saved =
     (staging_inv outputDir fs0 seen fs saved \<and> (\<forall>e \<in> set saved. inside outputDir e))"

text \<open>
  The wording of the specification for the HTML fallback, taken literally: style and script
  blocks and tags stripped (removed), the common entities decoded, and nothing else.
\<close>

function remove_tags :: "string \<Rightarrow> string" where
  "remove_tags [] = []"
| "remove_tags (c # cs) =
     (case match_tag (c # cs) of
        Some rest \<Rightarrow> remove_tags rest
      | None \<Rightarrow> c # remove_tags cs)"
  by pat_completeness auto

termination
  by (relation "measure length") (auto dest: match_tag_length)

text \<open>Decoding the entities: the six replacements of the source, in its order.\<close>

definition decode_entities :: "string \<Rightarrow> string" where
  "decode_entities s =
     replace_all ''&#39;'' [CHR 0x27]
       (replace_all ''&quot;'' dquote
       (replace_all ''&gt;'' ''>''
       (replace_all ''&lt;'' ''<''
       (replace_all ''&amp;'' ''&''
       (replace_all ''&nbsp;'' '' '' s)))))"

definition spec_html_body :: "string \<Rightarrow> string" where
  "spec_html_body html = decode_entities (remove_tags (strip_blocks ''script'' (strip_blocks ''style'' html)))"


section \<open>Sample data\<close>

text \<open>A watched folder \<^verbatim>\<open>/w\<close> with an email, a PDF and two text files, one of them blank.\<close>

definition sample_mail :: parsed_mail where
  "sample_mail =
     \<lparr>pm_text = Some ''Hello team'', pm_html = None, pm_from_text = Some ''ann@x.org'',
      pm_to_text = Some ''bob@y.org, cy@z.org'', pm_cc_text = None, pm_subject = Some ''Q3 Renewal'',
      pm_date = Some ''2024-05-01T10:00:00.000Z'', pm_messageId = None, pm_inReplyTo = None,
      pm_attachments =
        [\<lparr>ma_filename = Some ''logo.png'', ma_contentDisposition = Some ''inline'',
           ma_contentType = ''image/png'', ma_size = 10239, ma_content = ''px''\<rparr>,
         \<lparr>ma_filename = Some ''chart.png'', ma_contentDisposition = Some ''inline'',
           ma_contentType = ''image/png'', ma_size = 10240, ma_content = ''img''\<rparr>,
         \<lparr>ma_filename = None, ma_contentDisposition = Some ''attachment'',
           ma_contentType = ''text/plain'', ma_size = 20000, ma_content = ''anon''\<rparr>,
         \<lparr>ma_filename = Some ''contract.pdf'', ma_contentDisposition = Some ''attachment'',
           ma_contentType = ''application/pdf'', ma_size = 5, ma_content = ''terms''\<rparr>]\<rparr>"

definition html_mail :: parsed_mail where
  "html_mail =
     \<lparr>pm_text = None, pm_html = Some ''<p>Hello,   world</p>'', pm_from_text = Some ''ann@x.org'',
      pm_to_text = Some ''bob@y.org'', pm_cc_text = Some ''cy@z.org, di@z.org'', pm_subject = None,
      pm_date = None, pm_messageId = None, pm_inReplyTo = None, pm_attachments = []\<rparr>"

definition sample_env :: env where
  "sample_env =
     \<lparr>parseTranscript = (\<lambda>p.
        if p = ''/w/call.txt''
        then Inr \<lparr>p_filename = ''call.txt'', p_rawContent = ''Hello world'', p_durationMinutes = Some 30,
                  p_callDate = Some ''2020-01-01'', p_context = Some ''Imported transcript''\<rparr>
        else if p = ''/w/blank.txt''
        then Inr \<lparr>p_filename = ''blank.txt'', p_rawContent = ''   '', p_durationMinutes = None,
                  p_callDate = None, p_context = None\<rparr>
        else Inl (Error ''unreadable'')),
      parseFilenameMetadata = (\<lambda>n.
        if n = ''call.txt'' \<or> n = ''deck.pdf''
        then \<lparr>fm_date = Some ''2024-02-02'', fm_callType = Some ''discovery''\<rparr>
        else \<lparr>fm_date = None, fm_callType = None\<rparr>),
      simpleParser = (\<lambda>raw. if raw = ''raw mail'' then Inr sample_mail else Inl (Error ''not a message'')),
      pdfPages = (\<lambda>buffer. Inr [buffer, ''page two'']),
      docxRawText = (\<lambda>buffer. Inr buffer),
      now = ''2024-06-01T00:00:00.000Z''\<rparr>"

definition sample_opts :: options where
  "sample_opts = \<lparr>has_onNewFile = True, has_onError = True, processImmediately = True\<rparr>"

definition sample_world :: world where
  "sample_world =
     \<lparr>db = [],
      disk = [(''/w'', Dir), (''/w/m.eml'', File ''raw mail''), (''/w/deck.pdf'', File ''slides''),
              (''/w/call.txt'', File ''Hello world''), (''/w/blank.txt'', File ''   '')],
      processing = [], newFiles = [], errorsSeen = [], logs = []\<rparr>"



definition hostile_attachments :: "attachment list" where
  "hostile_attachments =
     [\<lparr>att_filename = ''../../etc/passwd'', att_contentType = ''text/plain'', att_size = 1, att_content = ''x''\<rparr>,
      \<lparr>att_filename = ''/root/.ssh/id'', att_contentType = ''text/plain'', att_size = 1, att_content = ''y''\<rparr>,
      \<lparr>att_filename = ''..'', att_contentType = ''text/plain'', att_size = 1, att_content = ''z''\<rparr>]"

section \<open>Properties of the email parser\<close>

text \<open>
  Claim C8. The retained attachments of a parsed email are, in their order, exactly the
  attachments that are neither inline with a size below 10240 bytes nor without a
  filename (\<^verbatim>\<open>undefined\<close>, \<^verbatim>\<open>null\<close> or empty); each is retained with its filename, its
  declared content type, its byte size and its content.
\<close>

theorem attachments_retained:
  "em_attachments (build_email filepath base parsed) =
     map retain
       (filter (\<lambda>att. \<not> ((ma_contentDisposition att = Some ''inline'' \<and> ma_size att < 10240)
                          \<or> ma_filename att = None \<or> ma_filename att = Some []))
          (pm_attachments parsed))
   \<and> (\<forall>att name. ma_filename att = Some name \<longrightarrow>
          retain att = \<lparr>att_filename = name, att_contentType = ma_contentType att,
                         att_size = ma_size att, att_content = ma_content att\<rparr>)"
proof -
  have k: "keep_attachment att =
             (\<not> ((ma_contentDisposition att = Some ''inline'' \<and> ma_size att < 10240)
                 \<or> ma_filename att = None \<or> ma_filename att = Some []))" for att
    by (cases "ma_filename att") (auto simp: keep_attachment_def)
  have "filter keep_attachment xs =
          filter (\<lambda>att. \<not> ((ma_contentDisposition att = Some ''inline'' \<and> ma_size att < 10240)
                             \<or> ma_filename att = None \<or> ma_filename att = Some [])) xs" for xs
    by (rule filter_cong [OF refl]) (rule k)
  then have "em_attachments (build_email filepath base parsed) =
     map retain
       (filter (\<lambda>att. \<not> ((ma_contentDisposition att = Some ''inline'' \<and> ma_size att < 10240)
                          \<or> ma_filename att = None \<or> ma_filename att = Some []))
          (pm_attachments parsed))"
    by (simp only: build_email_def Let_def email.simps)
  moreover have "\<forall>att name. ma_filename att = Some name \<longrightarrow>
          retain att = \<lparr>att_filename = name, att_contentType = ma_contentType att,
                         att_size = ma_size att, att_content = ma_content att\<rparr>"
    by (simp add: retain_def)
  ultimately show ?thesis by (rule conjI)
qed

theorem attachments_retained_witness:
  "em_attachments (build_email ''/w/m.eml'' ''m.eml'' sample_mail) =
     [\<lparr>att_filename = ''chart.png'', att_contentType = ''image/png'', att_size = 10240, att_content = ''img''\<rparr>,
      \<lparr>att_filename = ''contract.pdf'', att_contentType = ''application/pdf'', att_size = 5, att_content = ''terms''\<rparr>]"
  using attachments_retained [of "''/w/m.eml''" "''m.eml''" sample_mail]
  by (simp add: sample_mail_def retain_def)

text \<open>
  Claim C7 as stated fails: for an email with no plain-text part whose HTML part is
  \<^verbatim>\<open><p>Hello,   world</p>\<close>, stripping the tags and decoding the entities leaves the three
  spaces, and the body text has one.
\<close>

theorem html_body_not_only_stripped:
  "\<not> truthy (pm_text html_mail)
   \<and> pm_html html_mail = Some ''<p>Hello,   world</p>''
   \<and> spec_html_body ''<p>Hello,   world</p>'' = ''Hello,   world''
   \<and> em_bodyText (build_email ''/w/h.eml'' ''h.eml'' html_mail) = ''Hello, world''
   \<and> em_bodyText (build_email ''/w/h.eml'' ''h.eml'' html_mail) \<noteq> spec_html_body (the (pm_html html_mail))"
  by code_simp

lemma collapse_ws_spaces: "c \<in> set (collapse_ws s) \<Longrightarrow> js_space c \<Longrightarrow> c = CHR '' ''"
  by (induction s rule: collapse_ws.induct) (auto split: if_splits)

lemma set_trim: "set (trim s) \<subseteq> set s"
proof -
  have "set (dropWhile js_space (rev (dropWhile js_space s))) \<subseteq> set (rev (dropWhile js_space s))"
    by (rule set_dropWhileD [THEN subsetI])
  also have "\<dots> \<subseteq> set s"
    by (auto dest: set_dropWhileD)
  finally show ?thesis by (simp add: trim_def)
qed

lemma trim_last: "trim s \<noteq> [] \<Longrightarrow> \<not> js_space (last (trim s))"
proof -
  assume n: "trim s \<noteq> []"
  let ?d = "dropWhile js_space (rev (dropWhile js_space s))"
  from n have d: "?d \<noteq> []" by (simp add: trim_def)
  have "last (trim s) = hd ?d" using d by (simp add: trim_def last_rev)
  with hd_dropWhile [OF d] show ?thesis by simp
qed

lemma dropWhile_rev_prefix: "\<exists>zs. xs = rev (dropWhile P (rev xs)) @ zs"
  by (metis append_take_drop_id rev_append rev_rev_ident takeWhile_dropWhile_id)

lemma trim_hd: "trim s \<noteq> [] \<Longrightarrow> \<not> js_space (hd (trim s))"
proof -
  assume n: "trim s \<noteq> []"
  let ?t = "dropWhile js_space s"
  from n have t: "?t \<noteq> []" by (cases "dropWhile js_space s = []") (simp_all add: trim_def)
  obtain zs where z: "?t = trim s @ zs"
    using dropWhile_rev_prefix [of ?t js_space] by (auto simp: trim_def)
  with n have "hd (trim s) = hd ?t" by (metis hd_append2)
  with hd_dropWhile [OF t] show ?thesis by simp
qed

lemma headerBlock_explicit:
  "headerBlock_of from to cc subject date =
     ''From: '' @ from @ nl @ ''To: '' @ join_with '', '' to @ nl
     @ (if cc = [] then [] else ''CC: '' @ join_with '', '' cc @ nl)
     @ ''Subject: '' @ subject @ nl
     @ ''Date: '' @ (case date of Some d \<Rightarrow> d | None \<Rightarrow> ''Unknown'') @ nl
     @ ''---''"
  by (simp add: headerBlock_of_def)

text \<open>
  Claim C7, amended. The body text is the trimmed plain-text part when there is one (a
  non-empty string). When there is none but there is an HTML part, it is the HTML part with
  the style and script blocks removed, every other tag replaced by a space, the entities
  \<^verbatim>\<open>&nbsp; &amp; &lt; &gt; &quot; &#39;\<close> decoded, every run of white space collapsed to one
  space, and the result trimmed: its only white space is single spaces, none at either end.
  The full content is the header block of From, To, CC (when present), Subject and Date,
  prepended to the body text.
\<close>

theorem email_body_and_header:
  "(truthy (pm_text parsed) \<longrightarrow>
      em_bodyText (build_email filepath base parsed) = trim (the (pm_text parsed)))
   \<and> (\<not> truthy (pm_text parsed) \<and> truthy (pm_html parsed) \<longrightarrow>
      em_bodyText (build_email filepath base parsed) =
        trim (collapse_ws (decode_entities (tags_to_spaces
          (strip_blocks ''script'' (strip_blocks ''style'' (the (pm_html parsed)))))))
      \<and> (\<forall>c \<in> set (em_bodyText (build_email filepath base parsed)). js_space c \<longrightarrow> c = CHR '' '')
      \<and> (em_bodyText (build_email filepath base parsed) \<noteq> [] \<longrightarrow>
            \<not> js_space (hd (em_bodyText (build_email filepath base parsed)))
            \<and> \<not> js_space (last (em_bodyText (build_email filepath base parsed)))))
   \<and> em_fullContent (build_email filepath base parsed) =
       ''From: '' @ em_from (build_email filepath base parsed) @ nl
       @ ''To: '' @ join_with '', '' (em_to (build_email filepath base parsed)) @ nl
       @ (if em_cc (build_email filepath base parsed) = [] then []
          else ''CC: '' @ join_with '', '' (em_cc (build_email filepath base parsed)) @ nl)
       @ ''Subject: '' @ em_subject (build_email filepath base parsed) @ nl
       @ ''Date: '' @ (case em_date (build_email filepath base parsed) of Some d \<Rightarrow> d | None \<Rightarrow> ''Unknown'') @ nl
       @ ''---'' @ em_bodyText (build_email filepath base parsed)"
proof (intro conjI impI)
  assume "truthy (pm_text parsed)"
  then show "em_bodyText (build_email filepath base parsed) = trim (the (pm_text parsed))"
    by (simp add: build_email_def Let_def bodyText_of_def)
next
  assume a: "\<not> truthy (pm_text parsed) \<and> truthy (pm_html parsed)"
  let ?h = "the (pm_html parsed)"
  let ?c = "collapse_ws (decode_entities (tags_to_spaces (strip_blocks ''script'' (strip_blocks ''style'' ?h))))"
  from a show b: "em_bodyText (build_email filepath base parsed) = trim ?c"
    by (simp add: build_email_def Let_def bodyText_of_def html_to_text_def decode_entities_def)
  show "\<forall>c \<in> set (em_bodyText (build_email filepath base parsed)). js_space c \<longrightarrow> c = CHR '' ''"
    unfolding b using set_trim [of ?c] collapse_ws_spaces by blast
  {
    assume "em_bodyText (build_email filepath base parsed) \<noteq> []"
    then have n: "trim ?c \<noteq> []" unfolding b .
    show "\<not> js_space (hd (em_bodyText (build_email filepath base parsed)))"
      unfolding b by (rule trim_hd [OF n])
    show "\<not> js_space (last (em_bodyText (build_email filepath base parsed)))"
      unfolding b by (rule trim_last [OF n])
  }
next
  show "em_fullContent (build_email filepath base parsed) =
       ''From: '' @ em_from (build_email filepath base parsed) @ nl
       @ ''To: '' @ join_with '', '' (em_to (build_email filepath base parsed)) @ nl
       @ (if em_cc (build_email filepath base parsed) = [] then []
          else ''CC: '' @ join_with '', '' (em_cc (build_email filepath base parsed)) @ nl)
       @ ''Subject: '' @ em_subject (build_email filepath base parsed) @ nl
       @ ''Date: '' @ (case em_date (build_email filepath base parsed) of Some d \<Rightarrow> d | None \<Rightarrow> ''Unknown'') @ nl
       @ ''---'' @ em_bodyText (build_email filepath base parsed)"
    by (simp add: build_email_def Let_def headerBlock_explicit)
qed

theorem email_body_and_header_witness:
  "\<not> truthy (pm_text html_mail) \<and> truthy (pm_html html_mail)
   \<and> em_bodyText (build_email ''/w/h.eml'' ''h.eml'' html_mail) = ''Hello, world''
   \<and> truthy (pm_text sample_mail)
   \<and> em_bodyText (build_email ''/w/m.eml'' ''m.eml'' sample_mail) = ''Hello team''"
proof -
  have h: "\<not> truthy (pm_text html_mail) \<and> truthy (pm_html html_mail)"
    by (simp add: html_mail_def)
  have t: "truthy (pm_text sample_mail)"
    by (simp add: sample_mail_def)
  have v: "trim (collapse_ws (decode_entities (tags_to_spaces
             (strip_blocks ''script'' (strip_blocks ''style'' (the (pm_html html_mail))))))) = ''Hello, world''"
    by code_simp
  have p: "trim (the (pm_text sample_mail)) = ''Hello team''"
    by code_simp
  from email_body_and_header [of html_mail "''/w/h.eml''" "''h.eml''"] h
  have "em_bodyText (build_email ''/w/h.eml'' ''h.eml'' html_mail) =
          trim (collapse_ws (decode_entities (tags_to_spaces
             (strip_blocks ''script'' (strip_blocks ''style'' (the (pm_html html_mail)))))))"
    by blast
  then have b1: "em_bodyText (build_email ''/w/h.eml'' ''h.eml'' html_mail) = ''Hello, world''"
    using v by (rule trans)
  from email_body_and_header [of sample_mail "''/w/m.eml''" "''m.eml''"] t
  have "em_bodyText (build_email ''/w/m.eml'' ''m.eml'' sample_mail) = trim (the (pm_text sample_mail))"
    by blast
  then have b2: "em_bodyText (build_email ''/w/m.eml'' ''m.eml'' sample_mail) = ''Hello team''"
    using p by (rule trans)
  from h b1 t b2 show ?thesis by blast
qed

text \<open>
  The full content of an email starts with its header block, so the emptiness test of the
  email branch never holds: an email whose body is blank is recorded all the same.
\<close>

lemma email_content_never_blank: "trim (em_fullContent (build_email filepath base parsed)) \<noteq> []"
proof -
  obtain rest where r: "em_fullContent (build_email filepath base parsed) = CHR ''F'' # rest"
    by (simp add: build_email_def Let_def headerBlock_explicit)
  have "\<not> js_space (CHR ''F'')" by (simp add: js_space_def)
  then have "dropWhile js_space (CHR ''F'' # rest) = CHR ''F'' # rest" by simp
  then have "CHR ''F'' \<in> set (rev (dropWhile js_space (CHR ''F'' # rest)))" by simp
  then have "\<exists>x \<in> set (rev (dropWhile js_space (CHR ''F'' # rest))). \<not> js_space x"
    using \<open>\<not> js_space (CHR ''F'')\<close> by blast
  then have "dropWhile js_space (rev (dropWhile js_space (CHR ''F'' # rest))) \<noteq> []"
    by (simp only: dropWhile_eq_Nil_conv) blast
  then show ?thesis unfolding r trim_def rev_is_Nil_conv .
qed

section \<open>The store only grows, and never twice under one path\<close>

lemma db_console_log [simp]: "db (console_log line w) = db w" "disk (console_log line w) = disk w"
  by (simp_all add: console_log_def)

lemma db_processTranscript [simp]: "db (processTranscript opts i w) = db w" "disk (processTranscript opts i w) = disk w"
  by (simp_all add: processTranscript_def)

lemma db_onNewFile [simp]: "db (onNewFile opts i p w) = db w" "disk (onNewFile opts i p w) = disk w"
  by (simp_all add: onNewFile_def)

lemma db_onError [simp]: "db (onError opts e p w) = db w" "disk (onError opts e p w) = disk w"
  by (simp_all add: onError_def)

lemma store_eq: "store r w = (length (db w), w\<lparr>db := db w @ [(length (db w), r)]\<rparr>)"
  by (simp add: store_def createTranscript_def)

lemma transcriptExists_paths: "transcriptExists d p = (p \<in> set (paths d))"
  by (simp add: transcriptExists_def paths_def)

lemma paths_append [simp]: "paths (a @ b) = paths a @ paths b"
  by (simp add: paths_def)

lemma paths_single [simp]: "paths [(i, r)] = [tr_filepath r]"
  by (simp add: paths_def)

lemma paths_Nil [simp]: "paths [] = []"
  by (simp add: paths_def)

lemma grows_refl: "grows d d"
  by (simp add: grows_def)

lemma grows_trans:
  assumes "grows a b" and "grows b c"
  shows "grows a c"
proof -
  from assms(1) obtain n1 where b: "b = a @ n1" and d1: "distinct (paths n1)"
    and i1: "set (paths n1) \<inter> set (paths a) = {}"
    by (auto simp: grows_def)
  from assms(2) obtain n2 where c: "c = b @ n2" and d2: "distinct (paths n2)"
    and i2: "set (paths n2) \<inter> set (paths b) = {}"
    by (auto simp: grows_def)
  have "c = a @ (n1 @ n2)" using b c by simp
  moreover have "distinct (paths (n1 @ n2))" using d1 d2 i2 b by auto
  moreover have "set (paths (n1 @ n2)) \<inter> set (paths a) = {}" using i1 i2 b by auto
  ultimately show ?thesis unfolding grows_def by blast
qed

lemma grows_store: "\<not> transcriptExists d (tr_filepath r) \<Longrightarrow> grows d (d @ [(i, r)])"
  unfolding grows_def by (rule exI [of _ "[(i, r)]"]) (simp add: transcriptExists_paths)



lemma process_attachment_grows: "grows (db w) (db (process_attachment env opts email att w))"
proof -
  have "grows (db w) (db w @ [(length (db w), attachment_record env email att t)])"
    if "\<not> transcriptExists (db w) (sv_filepath att)" for t
    using that by (intro grows_store) (simp add: attachment_record_def)
  then show ?thesis
    by (simp add: process_attachment_def Let_def store_eq grows_refl split: sum.splits)
qed

lemma process_attachments_grows: "grows (db w) (db (process_attachments env opts email atts w))"
proof (induction atts arbitrary: w)
  case Nil
  show ?case by (simp add: grows_refl)
next
  case (Cons att atts)
  show ?case
    using grows_trans [OF process_attachment_grows Cons.IH] by simp
qed



lemma db_ingest_email_body:
  "db (ingest_email_body env opts filepath email w) =
     db w @ [(length (db w), email_record env filepath email)]"
  by (simp add: ingest_email_body_def store_eq)

lemma ingest_attachments_grows: "grows (db w) (db (ingest_attachments env opts filepath email w))"
  using process_attachments_grows [of "w\<lparr>disk := d\<rparr>" for d]
  by (simp add: ingest_attachments_def Let_def split: prod.splits)














section \<open>Ignored files\<close>






section \<open>The records a handler creates\<close>

lemma created_console_log [simp]: "created w (console_log line w') = created w w'"
  by (simp add: created_def)

lemma created_same [simp]: "db w' = db w \<Longrightarrow> created w w' = []"
  by (simp add: created_def)

lemma created_one [simp]: "db w' = db w @ [(i, r)] \<Longrightarrow> created w w' = [r]"
  by (simp add: created_def)

lemma handle_text_created:
  "created w (handle_text env opts filepath w) =
     (case parseTranscript env filepath of
        Inl err \<Rightarrow> []
      | Inr parsed \<Rightarrow>
          [\<lparr>tr_filename = p_filename parsed,
            tr_filepath = filepath,
            tr_rawContent = p_rawContent parsed,
            tr_durationMinutes = p_durationMinutes parsed,
            tr_callDate = js_or (fm_date (parseFilenameMetadata env (p_filename parsed))) (p_callDate parsed),
            tr_context = js_or (fm_callType (parseFilenameMetadata env (p_filename parsed))) (p_context parsed)\<rparr>])"
  by (simp add: handle_text_def Let_def store_eq split: sum.splits)

lemma handle_document_created:
  "created w (handle_document env opts ext filepath w) =
     (case (if ext = ''.pdf'' then extractPdfText env (disk w) filepath
            else extractDocxText env (disk w) filepath) of
        Inl err \<Rightarrow> []
      | Inr extractedText \<Rightarrow>
          if trim extractedText = [] then []
          else [\<lparr>tr_filename = basename filepath,
                 tr_filepath = filepath,
                 tr_rawContent = extractedText,
                 tr_durationMinutes = None,
                 tr_callDate = js_or (fm_date (parseFilenameMetadata env (basename filepath))) (Some (now env)),
                 tr_context = js_or (fm_callType (parseFilenameMetadata env (basename filepath)))
                                (Some (''Watched file: '' @ basename filepath))\<rparr>])"
  by (simp add: handle_document_def Let_def store_eq split: sum.splits)

lemma created_from_log [simp]: "created (console_log line w) w' = created w w'"
  by (simp add: created_def)

lemma js_or_override: "a = Some d \<Longrightarrow> d \<noteq> [] \<Longrightarrow> js_or a b = Some d"
  by (simp add: js_or_def)

lemma filename_first_record:
  "filename_first env
     \<lparr>tr_filename = n, tr_filepath = p, tr_rawContent = c, tr_durationMinutes = m,
      tr_callDate = js_or (fm_date (parseFilenameMetadata env n)) callDate1,
      tr_context = js_or (fm_callType (parseFilenameMetadata env n)) context1\<rparr>"
  unfolding filename_first_def by (intro exI [of _ callDate1] exI [of _ context1]) simp

lemma handle_text_filename_first:
  "r \<in> set (created w (handle_text env opts filepath (console_log line w))) \<Longrightarrow> filename_first env r"
  using handle_text_created [of "console_log line w" env opts filepath]
  by (auto simp: filename_first_record split: sum.splits)

lemma handle_document_filename_first:
  "r \<in> set (created w (handle_document env opts ext filepath (console_log line w))) \<Longrightarrow> filename_first env r"
  using handle_document_created [of "console_log line w" env opts ext filepath]
  by (auto simp: filename_first_record split: sum.splits if_splits)

lemma import_file_filename_first:
  "r \<in> set (created w (fst (import_file env folderPath file (w, results)))) \<Longrightarrow> filename_first env r"
  by (auto simp: import_file_def Let_def store_eq filename_first_record split: sum.splits if_splits)

lemma onAdd_filename_first:
  assumes "toLowerCase (extname filepath) \<noteq> ''.eml''"
    and "r \<in> set (created w (onAdd env opts filepath w))"
  shows "filename_first env r"
proof -
  let ?ext = "toLowerCase (extname filepath)"
  let ?w0 = "console_log (''New transcript detected: '' @ filepath) w"
  from assms(2) have "r \<in> set (created w (handle_document env opts ?ext filepath ?w0))
      \<or> r \<in> set (created w (handle_text env opts filepath ?w0))"
    using assms(1) by (simp add: onAdd_def Let_def split: if_splits)
  then show ?thesis
    using handle_document_filename_first handle_text_filename_first by blast
qed

text \<open>
  Claim C3. For a file that is not an email, every record the \<^verbatim>\<open>add\<close> handler (or
  \<^verbatim>\<open>importFolder\<close>) creates carries the date that \<^verbatim>\<open>parseFilenameMetadata\<close> infers from the
  record's filename, whenever it infers one (a non-empty string), whatever date the content
  suggested; likewise an inferred call type becomes the record's context.
\<close>

theorem filename_metadata_overrides:
  "toLowerCase (extname filepath) \<noteq> ''.eml'' \<longrightarrow>
     (\<forall>r \<in> set (created w (onAdd env opts filepath w)) \<union> set (created w (fst (import_file env folderPath file (w, results)))).
        (\<forall>d. fm_date (parseFilenameMetadata env (tr_filename r)) = Some d \<and> d \<noteq> [] \<longrightarrow> tr_callDate r = Some d)
      \<and> (\<forall>c. fm_callType (parseFilenameMetadata env (tr_filename r)) = Some c \<and> c \<noteq> [] \<longrightarrow> tr_context r = Some c))"
proof (intro impI ballI)
  fix r
  assume x: "toLowerCase (extname filepath) \<noteq> ''.eml''"
    and r: "r \<in> set (created w (onAdd env opts filepath w)) \<union> set (created w (fst (import_file env folderPath file (w, results))))"
  from r have "filename_first env r"
    using onAdd_filename_first [OF x] import_file_filename_first by blast
  then obtain callDate1 context1 where
    cd: "tr_callDate r = js_or (fm_date (parseFilenameMetadata env (tr_filename r))) callDate1" and
    cx: "tr_context r = js_or (fm_callType (parseFilenameMetadata env (tr_filename r))) context1"
    unfolding filename_first_def by blast
  show "(\<forall>d. fm_date (parseFilenameMetadata env (tr_filename r)) = Some d \<and> d \<noteq> [] \<longrightarrow> tr_callDate r = Some d)
      \<and> (\<forall>c. fm_callType (parseFilenameMetadata env (tr_filename r)) = Some c \<and> c \<noteq> [] \<longrightarrow> tr_context r = Some c)"
    using cd cx by (auto simp: js_or_override)
qed

theorem filename_metadata_overrides_witness:
  "toLowerCase (extname ''/w/call.txt'') \<noteq> ''.eml''
   \<and> map tr_filename (created sample_world (onAdd sample_env sample_opts ''/w/call.txt'' sample_world)) = [''call.txt'']
   \<and> map p_callDate [projr (parseTranscript sample_env ''/w/call.txt'')] = [Some ''2020-01-01'']
   \<and> fm_date (parseFilenameMetadata sample_env ''call.txt'') = Some ''2024-02-02''
   \<and> map tr_callDate (created sample_world (onAdd sample_env sample_opts ''/w/call.txt'' sample_world)) = [Some ''2024-02-02'']
   \<and> map tr_context (created sample_world (onAdd sample_env sample_opts ''/w/call.txt'' sample_world)) = [Some ''discovery'']"
proof -
  let ?c = "created sample_world (onAdd sample_env sample_opts ''/w/call.txt'' sample_world)"
  have x: "toLowerCase (extname ''/w/call.txt'') \<noteq> ''.eml''"
    by code_simp
  have n: "map tr_filename ?c = [''call.txt'']"
    by code_simp
  have p: "map p_callDate [projr (parseTranscript sample_env ''/w/call.txt'')] = [Some ''2020-01-01'']"
    by code_simp
  have m: "fm_date (parseFilenameMetadata sample_env ''call.txt'') = Some ''2024-02-02''"
       "fm_callType (parseFilenameMetadata sample_env ''call.txt'') = Some ''discovery''"
    by (simp_all add: sample_env_def)
  from n obtain r where c: "?c = [r]" and rn: "tr_filename r = ''call.txt''"
    by auto
  from filename_metadata_overrides [of "''/w/call.txt''" sample_world sample_env sample_opts "''/w''" "''call.txt''" "[]"] x c
  have "(\<forall>d. fm_date (parseFilenameMetadata sample_env (tr_filename r)) = Some d \<and> d \<noteq> [] \<longrightarrow> tr_callDate r = Some d)
      \<and> (\<forall>c. fm_callType (parseFilenameMetadata sample_env (tr_filename r)) = Some c \<and> c \<noteq> [] \<longrightarrow> tr_context r = Some c)"
    by simp
  with rn m have "tr_callDate r = Some ''2024-02-02''" "tr_context r = Some ''discovery''"
    by auto
  with x n p m c show ?thesis by simp
qed

lemma created_append2:
  "db w' = db w @ n \<Longrightarrow> grows (db w') (db w'') \<Longrightarrow> created w w'' = created w w' @ created w' w''"
  by (auto simp: grows_def created_def)

lemma created_append:
  "grows (db w) (db w') \<Longrightarrow> grows (db w') (db w'') \<Longrightarrow> created w w'' = created w w' @ created w' w''"
  by (auto simp: grows_def created_def)

lemma process_attachment_created:
  "r \<in> set (created w (process_attachment env opts email att w)) \<Longrightarrow>
   \<exists>t. trim t \<noteq> [] \<and> r = attachment_record env email att t"
  by (auto simp: process_attachment_def Let_def store_eq split: if_splits sum.splits)

lemma process_attachments_created:
  "r \<in> set (created w (process_attachments env opts email savedFiles w)) \<Longrightarrow>
   attachment_of env email savedFiles r"
proof (induction savedFiles arbitrary: w)
  case Nil
  then show ?case by simp
next
  case (Cons att savedFiles)
  let ?w1 = "process_attachment env opts email att w"
  have "created w (process_attachments env opts email (att # savedFiles) w) =
          created w ?w1 @ created ?w1 (process_attachments env opts email savedFiles ?w1)"
    using created_append [OF process_attachment_grows process_attachments_grows] by simp
  with Cons.prems have "r \<in> set (created w ?w1)
      \<or> r \<in> set (created ?w1 (process_attachments env opts email savedFiles ?w1))" by auto
  then show ?case
  proof
    assume "r \<in> set (created w ?w1)"
    from process_attachment_created [OF this] show ?thesis
      by (auto simp: attachment_of_def)
  next
    assume "r \<in> set (created ?w1 (process_attachments env opts email savedFiles ?w1))"
    from Cons.IH [OF this] show ?thesis
      by (auto simp: attachment_of_def)
  qed
qed

lemma created_disk [simp]: "created (w\<lparr>disk := d\<rparr>) w' = created w w'"
  by (simp add: created_def)

lemma ingest_attachments_created:
  "r \<in> set (created w (ingest_attachments env opts filepath email w)) \<Longrightarrow>
   attachment_of env email
     (fst (saveAttachments (em_attachments email) (path_join (dirname filepath) ''.prism-attachments'') (disk w))) r"
  using process_attachments_created [of r "w\<lparr>disk := d\<rparr>" env opts email for d]
  by (auto simp: ingest_attachments_def Let_def split: prod.splits)

lemma ingest_email_body_created:
  "created w (ingest_email_body env opts filepath email w) = [email_record env filepath email]"
  by (simp add: db_ingest_email_body)

lemma handle_email_tail:
  assumes "parseEmail env (disk w) filepath = Inr email"
    and "r \<in> set (tl (created w (handle_email env opts filepath w)))"
  shows "attachment_of env email
           (fst (saveAttachments (em_attachments email) (path_join (dirname filepath) ''.prism-attachments'') (disk w))) r"
proof -
  let ?w4 = "ingest_email_body env opts filepath email w"
  have dk: "disk ?w4 = disk w"
    by (simp add: ingest_email_body_def store_eq)
  have g4: "db ?w4 = db w @ [(length (db w), email_record env filepath email)]"
    by (rule db_ingest_email_body)
  show ?thesis
  proof (cases "trim (em_fullContent email) \<noteq> [] \<and> em_hasAttachments email")
    case False
    with assms show ?thesis
      by (cases "trim (em_fullContent email) = []")
         (auto simp: handle_email_def Let_def ingest_email_body_created)
  next
    case True
    have "created w (ingest_attachments env opts filepath email ?w4) =
                 created w ?w4 @ created ?w4 (ingest_attachments env opts filepath email ?w4)"
      by (rule created_append2 [OF g4 ingest_attachments_grows])
    with assms True have "r \<in> set (created ?w4 (ingest_attachments env opts filepath email ?w4))"
      by (simp add: handle_email_def Let_def ingest_email_body_created)
    then show ?thesis
      using ingest_attachments_created [of r ?w4 env opts filepath email] dk by simp
  qed
qed

lemma onAdd_email_tail:
  assumes "parseEmail env (disk w) filepath = Inr email"
    and "toLowerCase (extname filepath) = ''.eml''"
    and "r \<in> set (tl (created w (onAdd env opts filepath w)))"
  shows "attachment_of env email
           (fst (saveAttachments (em_attachments email) (path_join (dirname filepath) ''.prism-attachments'') (disk w))) r"
proof -
  let ?w0 = "console_log (''New transcript detected: '' @ filepath) w"
  from assms(2,3) have "r \<in> set (tl (created ?w0 (handle_email env opts filepath ?w0)))"
    by (simp add: onAdd_def Let_def split: if_splits)
  moreover have "parseEmail env (disk ?w0) filepath = Inr email"
    using assms(1) by simp
  ultimately show ?thesis
    using handle_email_tail [of env ?w0 filepath email r opts] by simp
qed

text \<open>
  Claim C5. When the \<^verbatim>\<open>add\<close> handler ingests an email, every record it creates after the
  email's own is an attachment record: its context is
  \<^verbatim>\<open>Attachment: N (from "S")\<close>, where \<open>N\<close> is the record's filename (the name the attachment
  was staged under) and \<open>S\<close> the email's subject, and its content starts with the header
  lines giving the email's subject, sender and date and the attachment's name and content
  type, followed by the attachment's (non-blank) text.
\<close>

theorem attachment_provenance:
  "parseEmail env (disk w) filepath = Inr email \<and> toLowerCase (extname filepath) = ''.eml'' \<longrightarrow>
     (\<forall>r \<in> set (tl (created w (onAdd env opts filepath w))).
        tr_context r = Some (''Attachment: '' @ tr_filename r @ '' (from '' @ dquote @ em_subject email @ dquote @ '')'')
        \<and> (\<exists>contentType t.
              trim t \<noteq> []
              \<and> tr_rawContent r =
                  ''[Attachment from email]'' @ nl
                  @ ''Email Subject: '' @ em_subject email @ nl
                  @ ''Email From: '' @ em_from email @ nl
                  @ ''Email Date: '' @ (case em_date email of Some d \<Rightarrow> d | None \<Rightarrow> ''Unknown'') @ nl
                  @ ''Attachment: '' @ tr_filename r @ '' ('' @ contentType @ '')'' @ nl
                  @ ''---'' @ nl @ t))"
proof (intro impI ballI)
  fix r
  assume a: "parseEmail env (disk w) filepath = Inr email \<and> toLowerCase (extname filepath) = ''.eml''"
    and r: "r \<in> set (tl (created w (onAdd env opts filepath w)))"
  from onAdd_email_tail [OF _ _ r] a obtain att t where
    t: "trim t \<noteq> []" and e: "r = attachment_record env email att t"
    unfolding attachment_of_def by blast
  have c: "tr_context r = Some (''Attachment: '' @ tr_filename r @ '' (from '' @ dquote @ em_subject email @ dquote @ '')'')"
    by (simp add: e attachment_record_def)
  have h: "tr_rawContent r =
             ''[Attachment from email]'' @ nl
             @ ''Email Subject: '' @ em_subject email @ nl
             @ ''Email From: '' @ em_from email @ nl
             @ ''Email Date: '' @ (case em_date email of Some d \<Rightarrow> d | None \<Rightarrow> ''Unknown'') @ nl
             @ ''Attachment: '' @ tr_filename r @ '' ('' @ sv_contentType att @ '')'' @ nl
             @ ''---'' @ nl @ t"
    by (simp add: e attachment_record_def attachmentHeader_def)
  from c h t show "tr_context r = Some (''Attachment: '' @ tr_filename r @ '' (from '' @ dquote @ em_subject email @ dquote @ '')'')
        \<and> (\<exists>contentType t.
              trim t \<noteq> []
              \<and> tr_rawContent r =
                  ''[Attachment from email]'' @ nl
                  @ ''Email Subject: '' @ em_subject email @ nl
                  @ ''Email From: '' @ em_from email @ nl
                  @ ''Email Date: '' @ (case em_date email of Some d \<Rightarrow> d | None \<Rightarrow> ''Unknown'') @ nl
                  @ ''Attachment: '' @ tr_filename r @ '' ('' @ contentType @ '')'' @ nl
                  @ ''---'' @ nl @ t)"
    by blast
qed

theorem attachment_provenance_witness:
  "parseEmail sample_env (disk sample_world) ''/w/m.eml'' = Inr (build_email ''/w/m.eml'' ''m.eml'' sample_mail)
   \<and> em_subject (build_email ''/w/m.eml'' ''m.eml'' sample_mail) = ''Q3 Renewal''
   \<and> map tr_filename (created sample_world (onAdd sample_env sample_opts ''/w/m.eml'' sample_world))
       = [''m.eml'', ''contract.pdf'']
   \<and> map tr_context (tl (created sample_world (onAdd sample_env sample_opts ''/w/m.eml'' sample_world)))
       = [Some (''Attachment: contract.pdf (from '' @ dquote @ ''Q3 Renewal'' @ dquote @ '')'')]"
proof -
  let ?email = "build_email ''/w/m.eml'' ''m.eml'' sample_mail"
  let ?c = "created sample_world (onAdd sample_env sample_opts ''/w/m.eml'' sample_world)"
  have p: "parseEmail sample_env (disk sample_world) ''/w/m.eml'' = Inr ?email"
    by (simp add: parseEmail_def sample_env_def sample_world_def readFileSync_def basename_def slash_def)
  have x: "toLowerCase (extname ''/w/m.eml'') = ''.eml''"
    by code_simp
  have s: "em_subject ?email = ''Q3 Renewal''"
    by (simp add: build_email_def Let_def sample_mail_def or_else_def)
  have n: "map tr_filename ?c = [''m.eml'', ''contract.pdf'']"
    by code_simp
  then obtain r0 r where c: "?c = [r0, r]" and rn: "tr_filename r = ''contract.pdf''"
    by auto
  from attachment_provenance [of sample_env sample_world "''/w/m.eml''" ?email sample_opts] p x c
  have "tr_context r = Some (''Attachment: '' @ tr_filename r @ '' (from '' @ dquote @ em_subject ?email @ dquote @ '')'')"
    by simp
  with rn s have "tr_context r = Some (''Attachment: contract.pdf (from '' @ dquote @ ''Q3 Renewal'' @ dquote @ '')'')"
    by simp
  with p s n c show ?thesis by simp
qed

text \<open>
  The text branch of the handler stores whatever \<^verbatim>\<open>parseTranscript\<close> returns: there is no
  test of the content, unlike the PDF/DOCX branch, the email branch and the attachment loop.
\<close>

lemma text_branch_unconditional:
  assumes "toLowerCase (extname filepath) \<in> set [''.txt'', ''.md'', ''.json'', ''.srt'']"
    and "\<not> shouldIgnore filepath"
    and "\<not> transcriptExists (db w) filepath"
    and "parseTranscript env filepath = Inr parsed"
  shows "map tr_rawContent (created w (onAdd env opts filepath w)) = [p_rawContent parsed]"
proof -
  let ?w0 = "console_log (''New transcript detected: '' @ filepath) w"
  from assms(1) have x: "toLowerCase (extname filepath) \<in> set SUPPORTED_EXTENSIONS"
    "toLowerCase (extname filepath) \<noteq> ''.eml''" "toLowerCase (extname filepath) \<noteq> ''.pdf''"
    "toLowerCase (extname filepath) \<noteq> ''.docx''"
    by (auto simp: SUPPORTED_EXTENSIONS_def)
  with assms(2,3) have "onAdd env opts filepath w = handle_text env opts filepath ?w0"
    by (simp add: onAdd_def Let_def)
  moreover have "created ?w0 (handle_text env opts filepath ?w0) = created w (handle_text env opts filepath ?w0)"
    by simp
  ultimately show ?thesis
    using handle_text_created [of ?w0 env opts filepath] assms(4) by simp
qed

lemma empty_document_dropped:
  assumes "extractPdfText env (disk w) filepath = Inr extractedText" and "trim extractedText = []"
  shows "created w (handle_document env opts ''.pdf'' filepath w) = []"
  using assms by (simp add: handle_document_created)

text \<open>
  Claim C2, at a white-space-only text file: \<^verbatim>\<open>/w/blank.txt\<close> holds three spaces and
  \<^verbatim>\<open>parseTranscript\<close> returns them as the raw content. The handler stores a record with
  that content, queues it for processing and notifies \<^verbatim>\<open>onNewFile\<close>.
\<close>

theorem blank_text_file_recorded:
  "readFileSync (disk sample_world) ''/w/blank.txt'' = Inr ''   ''
   \<and> parseTranscript sample_env ''/w/blank.txt''
       = Inr \<lparr>p_filename = ''blank.txt'', p_rawContent = ''   '', p_durationMinutes = None,
               p_callDate = None, p_context = None\<rparr>
   \<and> trim ''   '' = []
   \<and> created sample_world (onAdd sample_env sample_opts ''/w/blank.txt'' sample_world)
       = [\<lparr>tr_filename = ''blank.txt'', tr_filepath = ''/w/blank.txt'', tr_rawContent = ''   '',
            tr_durationMinutes = None, tr_callDate = None, tr_context = None\<rparr>]
   \<and> newFiles (onAdd sample_env sample_opts ''/w/blank.txt'' sample_world) = [(0, ''/w/blank.txt'')]
   \<and> processing (onAdd sample_env sample_opts ''/w/blank.txt'' sample_world) = [0]"
  by code_simp

section \<open>Staging the attachments of an email\<close>

lemma free_path_free: "\<not> existsSync fs (free_path fs outputDir safeName finalPath counter)"
proof (induction fs outputDir safeName finalPath counter rule: free_path.induct)
  case (1 fs outputDir safeName finalPath counter)
  show ?case
  proof (cases "existsSync fs finalPath")
    case True
    with 1 show ?thesis by (subst free_path.simps) simp
  next
    case False
    then show ?thesis by (subst free_path.simps) simp
  qed
qed

text \<open>The loop stops at the smallest counter whose suffixed name is free.\<close>

lemma free_path_least:
  "existsSync fs finalPath \<Longrightarrow>
   free_path fs outputDir safeName finalPath counter =
     suffixed outputDir safeName (LEAST k. counter \<le> k \<and> \<not> existsSync fs (suffixed outputDir safeName k))"
proof (induction fs outputDir safeName finalPath counter rule: free_path.induct)
  case (1 fs outputDir safeName finalPath counter)
  let ?free = "\<lambda>k. \<not> existsSync fs (suffixed outputDir safeName k)"
  from "1.prems" have step: "free_path fs outputDir safeName finalPath counter =
      free_path fs outputDir safeName (suffixed outputDir safeName counter) (counter + 1)"
    by (subst free_path.simps) simp
  show ?case
  proof (cases "?free counter")
    case True
    then have "free_path fs outputDir safeName (suffixed outputDir safeName counter) (counter + 1)
               = suffixed outputDir safeName counter"
      by (subst free_path.simps) simp
    moreover from True have "(LEAST k. counter \<le> k \<and> ?free k) = counter"
      by (intro Least_equality) auto
    ultimately show ?thesis using step by simp
  next
    case False
    then have e: "existsSync fs (suffixed outputDir safeName counter)" by simp
    have "(\<lambda>k. counter \<le> k \<and> ?free k) = (\<lambda>k. counter + 1 \<le> k \<and> ?free k)"
    proof
      fix k show "(counter \<le> k \<and> ?free k) = (counter + 1 \<le> k \<and> ?free k)"
        using False by (cases "k = counter") auto
    qed
    with "1.IH" [OF "1.prems" e] step show ?thesis by simp
  qed
qed

lemma save_each_Cons:
  "save_each outputDir (att # atts) fs saved =
     save_each outputDir atts (writeFileSync fs (final_path outputDir fs att) (att_content att))
       (saved @ [staged outputDir fs att])"
  by (simp add: Let_def final_path_def staged_def)

text \<open>An invariant of the loop, over the attachments seen, the disk and the list saved so far.\<close>

lemma save_each_invariant:
  assumes "P seen fs saved"
    and "\<And>seen fs saved att. P seen fs saved \<Longrightarrow>
           P (seen @ [att]) (writeFileSync fs (final_path outputDir fs att) (att_content att))
             (saved @ [staged outputDir fs att])"
  shows "P (seen @ atts) (snd (save_each outputDir atts fs saved)) (fst (save_each outputDir atts fs saved))"
  using assms(1)
proof (induction atts arbitrary: seen fs saved)
  case Nil
  then show ?case by simp
next
  case (Cons att atts)
  from assms(2) [OF Cons.prems]
  have "P (seen @ [att]) (writeFileSync fs (final_path outputDir fs att) (att_content att))
          (saved @ [staged outputDir fs att])" .
  from Cons.IH [OF this] show ?case
    by (simp add: save_each_Cons del: save_each.simps)
qed

lemma staging_inv_start: "staging_inv outputDir fs0 [] fs0 []"
  by (simp add: staging_inv_def)

lemma final_path_shape:
  "final_path outputDir fs att = path_join outputDir (sanitize (att_filename att))
   \<or> (\<exists>k\<ge>1. final_path outputDir fs att = suffixed outputDir (sanitize (att_filename att)) k)"
proof (cases "existsSync fs (path_join outputDir (sanitize (att_filename att)))")
  case False
  then show ?thesis
    unfolding final_path_def by (subst free_path.simps) simp
next
  case True
  let ?k = "LEAST k. 1 \<le> k \<and> \<not> existsSync fs (suffixed outputDir (sanitize (att_filename att)) k)"
  have fin: "finite {k. existsSync fs (suffixed outputDir (sanitize (att_filename att)) k)}"
    by (rule finite_taken)
  have "\<exists>k. 1 \<le> k \<and> \<not> existsSync fs (suffixed outputDir (sanitize (att_filename att)) k)"
  proof (rule ccontr)
    assume "\<not> ?thesis"
    then have "{k. 1 \<le> k} \<subseteq> {k. existsSync fs (suffixed outputDir (sanitize (att_filename att)) k)}"
      by auto
    from finite_subset [OF this fin] have "finite {k::nat. 1 \<le> k}" .
    moreover have "{k::nat. 1 \<le> k} = {1..}" by auto
    ultimately show False using infinite_Ici [of "1::nat"] by simp
  qed
  then have "1 \<le> ?k" by (rule LeastI2_ex) simp
  with free_path_least [OF True, of outputDir "sanitize (att_filename att)" 1] show ?thesis
    unfolding final_path_def by blast
qed

lemma fresh_path: "fp \<notin> set (map sv_filepath saved) \<Longrightarrow> e \<in> set saved \<Longrightarrow> sv_filepath e \<noteq> fp"
  by auto

lemma staging_inv_step:
  assumes "staging_inv outputDir fs0 seen fs saved"
  shows "staging_inv outputDir fs0 (seen @ [att]) (writeFileSync fs (final_path outputDir fs att) (att_content att))
           (saved @ [staged outputDir fs att])"
proof -
  let ?fp = "final_path outputDir fs att"
  let ?fs = "writeFileSync fs ?fp (att_content att)"
  have free: "\<not> existsSync fs ?fp"
    unfolding final_path_def by (rule free_path_free)
  from assms have
    j1: "map sv_contentType saved = map att_contentType seen" "map sv_size saved = map att_size seen" and
    j2: "distinct (map sv_filepath saved)" and
    j3: "\<forall>e \<in> set saved. \<not> existsSync fs0 (sv_filepath e) \<and> existsSync fs (sv_filepath e)" and
    j4: "\<forall>p. p \<notin> set (map sv_filepath saved) \<longrightarrow> map_of fs p = map_of fs0 p" and
    j5: "map (\<lambda>e. map_of fs (sv_filepath e)) saved = map (\<lambda>a. Some (File (att_content a))) seen" and
    j7: "list_all2 (\<lambda>e a. sv_filename e = basename (sv_filepath e)
                          \<and> (sv_filepath e = path_join outputDir (sanitize (att_filename a))
                             \<or> (\<exists>k\<ge>1. sv_filepath e = suffixed outputDir (sanitize (att_filename a)) k)))
           saved seen"
    by (simp_all add: staging_inv_def)
  have old: "map_of ?fs p = map_of fs p" if "p \<noteq> ?fp" for p
    using that by (simp add: writeFileSync_def)
  have new: "map_of ?fs ?fp = Some (File (att_content att))"
    by (simp add: writeFileSync_def)
  have fresh: "?fp \<notin> set (map sv_filepath saved)"
    using j3 free by auto
  have free0: "\<not> existsSync fs0 ?fp"
    using free j4 fresh by (simp add: existsSync_def)
  have ex_new: "existsSync ?fs ?fp"
    using new by (simp add: existsSync_def)
  have ex_old: "existsSync ?fs p" if "existsSync fs p" for p
  proof -
    from that free have "p \<noteq> ?fp" by blast
    from old [OF this] that show ?thesis by (simp add: existsSync_def)
  qed
  have k2: "distinct (map sv_filepath (saved @ [staged outputDir fs att]))"
    using j2 fresh by (simp add: staged_def)
  have k3: "\<forall>e \<in> set (saved @ [staged outputDir fs att]).
              \<not> existsSync fs0 (sv_filepath e) \<and> existsSync ?fs (sv_filepath e)"
    using j3 free0 ex_new ex_old by (auto simp: staged_def)
  have k4: "\<forall>p. p \<notin> set (map sv_filepath (saved @ [staged outputDir fs att])) \<longrightarrow> map_of ?fs p = map_of fs0 p"
    using j4 old by (simp add: staged_def)
  have "map_of ?fs (sv_filepath e) = map_of fs (sv_filepath e)" if "e \<in> set saved" for e
  proof -
    from fresh that have "sv_filepath e \<noteq> ?fp" by (rule fresh_path)
    then show ?thesis by (rule old)
  qed
  then have "map (\<lambda>e. map_of ?fs (sv_filepath e)) saved = map (\<lambda>e. map_of fs (sv_filepath e)) saved"
    by (intro map_cong) simp_all
  with j5 new have k5: "map (\<lambda>e. map_of ?fs (sv_filepath e)) (saved @ [staged outputDir fs att])
      = map (\<lambda>a. Some (File (att_content a))) (seen @ [att])"
    by (simp add: staged_def)
  have k7: "list_all2 (\<lambda>e a. sv_filename e = basename (sv_filepath e)
                          \<and> (sv_filepath e = path_join outputDir (sanitize (att_filename a))
                             \<or> (\<exists>k\<ge>1. sv_filepath e = suffixed outputDir (sanitize (att_filename a)) k)))
           (saved @ [staged outputDir fs att]) (seen @ [att])"
    using j7 final_path_shape [of outputDir fs att]
    by (intro list_all2_appendI) (simp_all add: staged_def)
  from j1 k2 k3 k4 k5 k7 show ?thesis
    unfolding staging_inv_def by (simp add: staged_def)
qed

lemma saveAttachments_inv:
  "staging_inv outputDir (ensure_dir fs outputDir) attachments
     (snd (saveAttachments attachments outputDir fs)) (fst (saveAttachments attachments outputDir fs))"
  using save_each_invariant [where P = "staging_inv outputDir (ensure_dir fs outputDir)" and ?seen = "[]"
          and outputDir = outputDir and atts = attachments, OF staging_inv_start staging_inv_step]
  by (simp add: saveAttachments_def)

lemma sanitize_length: "length (sanitize name) = min 200 (length name)"
  by (simp add: sanitize_def min_def)

lemma sanitize_nth:
  "i < length (sanitize name) \<Longrightarrow>
   sanitize name ! i = (if name ! i \<in> set reserved then CHR ''_'' else name ! i)"
  by (simp add: sanitize_def)

lemma replaced_clean: "(if x \<in> set reserved then CHR ''_'' else x) \<notin> set reserved"
  by (simp add: reserved_def)

lemma sanitize_clean: "set (sanitize name) \<inter> set reserved = {}"
proof -
  have "c \<notin> set reserved" if "c \<in> set (sanitize name)" for c
  proof -
    from that have "c \<in> set (map (\<lambda>c. if c \<in> set reserved then CHR ''_'' else c) name)"
      unfolding sanitize_def by (rule in_set_takeD)
    then have "c \<in> (\<lambda>c. if c \<in> set reserved then CHR ''_'' else c) ` set name"
      by (simp only: set_map)
    then obtain x where "c = (if x \<in> set reserved then CHR ''_'' else x)"
      by (rule imageE)
    then show ?thesis by (simp only: replaced_clean not_False_eq_True)
  qed
  then show ?thesis by blast
qed

lemma sanitize_no_slash: "slash \<notin> set (sanitize name)"
  using sanitize_clean [of name] by (auto simp: reserved_def slash_def)

lemma set_basename: "set (basename p) \<subseteq> set p"
  by (auto simp: basename_def dest!: set_takeWhileD set_dropWhileD)

lemma set_extname: "set (extname p) \<subseteq> set p"
proof -
  have "set (rev (takeWhile (\<lambda>c. c \<noteq> CHR ''.'') (rev (basename p)))) \<subseteq> set (basename p)"
    by (auto dest: set_takeWhileD)
  with set_basename [of p] show ?thesis
    by (auto simp: extname_def Let_def)
qed

lemma set_basename_ext: "set (basename_ext p ext) \<subseteq> set p"
  using set_basename [of p] by (auto simp: basename_ext_def Let_def dest: in_set_takeD)

lemma digit_char_clean: "d < 10 \<Longrightarrow> digit_char d \<notin> set reserved"
proof
  assume d: "d < 10" and m: "digit_char d \<in> set reserved"
  have "(of_char (digit_char d) :: nat) = 48 + d"
    using d by (simp add: digit_char_def)
  moreover from m have "(of_char (digit_char d) :: nat) \<in> of_char ` set reserved"
    by (rule imageI)
  ultimately have "48 + d \<in> (of_char ` set reserved :: nat set)" by simp
  then show False using d by (auto simp: reserved_def)
qed

lemma show_nat_clean: "set (show_nat n) \<inter> set reserved = {}"
proof (induction n rule: show_nat.induct)
  case (1 n)
  show ?case
  proof (cases "n < 10")
    case True
    with digit_char_clean [of n] show ?thesis by (subst show_nat.simps) simp
  next
    case False
    have "digit_char (n mod 10) \<notin> set reserved" by (rule digit_char_clean) simp
    with 1 False show ?thesis by (subst show_nat.simps) auto
  qed
qed

lemma suffixed_name_clean:
  assumes "set s \<inter> set reserved = {}"
  shows "set (basename_ext s (extname s) @ ''_'' @ show_nat k @ extname s) \<inter> set reserved = {}"
proof -
  have "CHR ''_'' \<notin> set reserved" by (simp add: reserved_def)
  with assms set_basename_ext [of s "extname s"] set_extname [of s] show_nat_clean [of k]
  show ?thesis by auto
qed

lemma dir_prefix_end: "dir_prefix d = [] \<or> last (dir_prefix d) = slash"
proof (cases "normalizeString d (hd d \<noteq> slash)" rule: rev_cases)
  case Nil
  then show ?thesis by (simp add: dir_prefix_def slash_def)
next
  case (snoc segs seg)
  then show ?thesis by (simp add: dir_prefix_def slash_def)
qed

lemma basename_inside:
  assumes "plain_name n"
  shows "basename (dir_prefix d @ n) = n"
proof -
  from assms have n: "n \<noteq> []" "slash \<notin> set n" by (auto simp: plain_name_def)
  from n(1) have "last n \<in> set n" by (rule last_in_set)
  with n(2) have l: "last n \<noteq> slash" by metis
  from n l have h: "hd (rev n) \<noteq> slash" by (simp add: hd_rev)
  have dw: "dropWhile (\<lambda>c. c = slash) (rev n @ rev (dir_prefix d)) = rev n @ rev (dir_prefix d)"
    using n h by (cases "rev n") auto
  have tw: "takeWhile (\<lambda>c. c \<noteq> slash) (rev n @ rev (dir_prefix d)) = rev n"
  proof (cases "dir_prefix d = []")
    case True
    with n show ?thesis by (auto simp: takeWhile_eq_all_conv)
  next
    case False
    with dir_prefix_end [of d] have "hd (rev (dir_prefix d)) = slash" by (simp add: hd_rev)
    moreover from False obtain c cs where r: "rev (dir_prefix d) = c # cs"
      by (cases "rev (dir_prefix d)") auto
    ultimately have e: "rev (dir_prefix d) = slash # cs" by simp
    have "takeWhile (\<lambda>c. c \<noteq> slash) (rev n @ slash # cs) = takeWhile (\<lambda>c. c \<noteq> slash) (rev n)"
      by (rule takeWhile_tail) simp
    also have "\<dots> = rev n"
      using n by (auto simp: takeWhile_eq_all_conv)
    finally show ?thesis by (simp only: e)
  qed
  show ?thesis by (simp add: basename_def dw tw)
qed

lemma final_path_inside:
  assumes "\<forall>n \<in> set ['''', ''.'', ''..'']. existsSync fs (path_join outputDir n)"
  shows "inside outputDir (staged outputDir fs att)"
proof -
  let ?s = "sanitize (att_filename att)"
  let ?p = "path_join outputDir ?s"
  from assms have e0: "existsSync fs (path_join outputDir [])"
    and e1: "existsSync fs (path_join outputDir ''.'')"
    and e2: "existsSync fs (path_join outputDir ''..'')"
    by simp_all
  have "\<exists>n. plain_name n \<and> set n \<inter> set reserved = {} \<and> final_path outputDir fs att = dir_prefix outputDir @ n"
  proof (cases "existsSync fs ?p")
    case True
    let ?k = "LEAST k. 1 \<le> k \<and> \<not> existsSync fs (suffixed outputDir ?s k)"
    let ?n = "basename_ext ?s (extname ?s) @ ''_'' @ show_nat ?k @ extname ?s"
    have "final_path outputDir fs att = suffixed outputDir ?s ?k"
      unfolding final_path_def by (rule free_path_least [OF True])
    also have "\<dots> = dir_prefix outputDir @ ?n"
      by (rule suffixed_eq)
    finally have f: "final_path outputDir fs att = dir_prefix outputDir @ ?n" .
    have p: "plain_name ?n" by (rule suffixed_name_plain)
    have c: "set ?n \<inter> set reserved = {}" by (rule suffixed_name_clean [OF sanitize_clean])
    from p c f show ?thesis by (intro exI [of _ ?n] conjI)
  next
    case False
    then have f: "final_path outputDir fs att = ?p"
      unfolding final_path_def by (subst free_path.simps) simp
    have n0: "?s \<noteq> []"
    proof
      assume "?s = []"
      with e0 have "existsSync fs ?p" by (simp only:)
      with False show False ..
    qed
    have n1: "?s \<noteq> ''.''"
    proof
      assume "?s = ''.''"
      with e1 have "existsSync fs ?p" by (simp only:)
      with False show False ..
    qed
    have n2: "?s \<noteq> ''..''"
    proof
      assume "?s = ''..''"
      with e2 have "existsSync fs ?p" by (simp only:)
      with False show False ..
    qed
    from n0 n1 n2 sanitize_no_slash [of "att_filename att"] have p: "plain_name ?s"
      unfolding plain_name_def by (intro conjI)
    from f path_join_plain [OF p, of outputDir] have "final_path outputDir fs att = dir_prefix outputDir @ ?s"
      by (rule trans)
    with p sanitize_clean [of "att_filename att"] show ?thesis by (intro exI [of _ ?s] conjI)
  qed
  then obtain n where n: "plain_name n" "set n \<inter> set reserved = {}"
    and f: "final_path outputDir fs att = dir_prefix outputDir @ n" by blast
  from n(1) have "basename (dir_prefix outputDir @ n) = n" by (rule basename_inside)
  with n f show ?thesis by (simp add: inside_def staged_def)
qed

lemma staging_inv_mono: "staging_inv outputDir fs0 seen fs saved \<Longrightarrow> existsSync fs0 p \<Longrightarrow> existsSync fs p"
proof -
  assume i: "staging_inv outputDir fs0 seen fs saved" and e: "existsSync fs0 p"
  show "existsSync fs p"
  proof (cases "p \<in> set (map sv_filepath saved)")
    case True
    with i show ?thesis by (auto simp: staging_inv_def)
  next
    case False
    with i have "map_of fs p = map_of fs0 p" by (simp add: staging_inv_def)
    with e show ?thesis by (simp add: existsSync_def)
  qed
qed

lemma inside_inv_step:
  assumes h: "\<forall>n \<in> set ['''', ''.'', ''..'']. existsSync fs0 (path_join outputDir n)"
    and i: "inside_inv outputDir fs0 seen fs saved"
  shows "inside_inv outputDir fs0 (seen @ [att]) (writeFileSync fs (final_path outputDir fs att) (att_content att))
           (saved @ [staged outputDir fs att])"
proof -
  from i have s: "staging_inv outputDir fs0 seen fs saved" and n: "\<forall>e \<in> set saved. inside outputDir e"
    by (simp_all add: inside_inv_def)
  from h staging_inv_mono [OF s] have "\<forall>n \<in> set ['''', ''.'', ''..'']. existsSync fs (path_join outputDir n)"
    by blast
  from final_path_inside [OF this] n staging_inv_step [OF s] show ?thesis
    by (simp add: inside_inv_def)
qed

lemma saveAttachments_inside:
  assumes "\<forall>n \<in> set ['''', ''.'', ''..'']. existsSync (ensure_dir fs outputDir) (path_join outputDir n)"
  shows "inside_inv outputDir (ensure_dir fs outputDir) attachments
     (snd (saveAttachments attachments outputDir fs)) (fst (saveAttachments attachments outputDir fs))"
proof -
  have "inside_inv outputDir (ensure_dir fs outputDir) [] (ensure_dir fs outputDir) []"
    by (simp add: inside_inv_def staging_inv_start)
  from save_each_invariant [where P = "inside_inv outputDir (ensure_dir fs outputDir)" and ?seen = "[]"
          and outputDir = outputDir and atts = attachments, OF this inside_inv_step [OF assms]]
  show ?thesis by (simp add: saveAttachments_def)
qed

lemma disk_process_attachment [simp]: "disk (process_attachment env opts email att w) = disk w"
  by (simp add: process_attachment_def Let_def store_eq split: sum.splits)







text \<open>
  Claim C10. The sanitized name is the name with every character of \<^verbatim>\<open>/ \ : * ? " < > |\<close>
  replaced by an underscore, cut to 200 characters. Provided the staging directory (as
  \<^verbatim>\<open>path.join\<close> spells it for the names \<^verbatim>\<open>''\<close> and \<^verbatim>\<open>.\<close>) and its parent (for \<^verbatim>\<open>..\<close>) exist
  once the directory has been ensured, every staged path is the directory's prefix followed by
  the entry's filename, which is not empty, \<^verbatim>\<open>.\<close> or \<^verbatim>\<open>..\<close> and holds no separator or reserved
  character; and the only paths of the disk that staging changes are the staged paths.
\<close>

theorem attachments_staged_inside:
  "(\<forall>name. length (sanitize name) = min 200 (length name)
      \<and> (\<forall>i < length (sanitize name).
            sanitize name ! i = (if name ! i \<in> set reserved then CHR ''_'' else name ! i)))
   \<and> ((\<forall>n \<in> set ['''', ''.'', ''..'']. existsSync (ensure_dir fs outputDir) (path_join outputDir n)) \<longrightarrow>
        (\<forall>e \<in> set (fst (saveAttachments attachments outputDir fs)).
            sv_filepath e = dir_prefix outputDir @ sv_filename e
            \<and> plain_name (sv_filename e)
            \<and> set (sv_filename e) \<inter> set reserved = {})
        \<and> (\<forall>p. map_of (snd (saveAttachments attachments outputDir fs)) p \<noteq> map_of (ensure_dir fs outputDir) p \<longrightarrow>
              p \<in> set (map sv_filepath (fst (saveAttachments attachments outputDir fs)))))"
proof (intro conjI allI impI)
  fix name show "length (sanitize name) = min 200 (length name)" by (rule sanitize_length)
next
  fix name i assume "i < length (sanitize name)"
  then show "sanitize name ! i = (if name ! i \<in> set reserved then CHR ''_'' else name ! i)"
    by (rule sanitize_nth)
next
  assume h: "\<forall>n \<in> set ['''', ''.'', ''..'']. existsSync (ensure_dir fs outputDir) (path_join outputDir n)"
  from saveAttachments_inside [OF h, of attachments]
  show "\<forall>e \<in> set (fst (saveAttachments attachments outputDir fs)).
            sv_filepath e = dir_prefix outputDir @ sv_filename e
            \<and> plain_name (sv_filename e)
            \<and> set (sv_filename e) \<inter> set reserved = {}"
    by (simp add: inside_inv_def inside_def)
next
  fix p
  assume "map_of (snd (saveAttachments attachments outputDir fs)) p \<noteq> map_of (ensure_dir fs outputDir) p"
  with saveAttachments_inv [of outputDir fs attachments]
  show "p \<in> set (map sv_filepath (fst (saveAttachments attachments outputDir fs)))"
    unfolding staging_inv_def by blast
qed

theorem attachments_staged_inside_witness:
  "list_all (\<lambda>n. existsSync (ensure_dir [(''/w'', Dir)] ''/w/.prism-attachments'') (path_join ''/w/.prism-attachments'' n))
     ['''', ''.'', ''..'']
   \<and> dir_prefix ''/w/.prism-attachments'' = ''/w/.prism-attachments/''
   \<and> map sv_filename (fst (saveAttachments hostile_attachments ''/w/.prism-attachments'' [(''/w'', Dir)]))
       = [''.._.._etc_passwd'', ''_root_.ssh_id'', ''.._1'']
   \<and> list_all (\<lambda>e. sv_filepath e = dir_prefix ''/w/.prism-attachments'' @ sv_filename e)
        (fst (saveAttachments hostile_attachments ''/w/.prism-attachments'' [(''/w'', Dir)]))"
proof -
  let ?saved = "fst (saveAttachments hostile_attachments ''/w/.prism-attachments'' [(''/w'', Dir)])"
  have h: "list_all (\<lambda>n. existsSync (ensure_dir [(''/w'', Dir)] ''/w/.prism-attachments'') (path_join ''/w/.prism-attachments'' n))
     ['''', ''.'', ''..'']"
    by code_simp
  then have h': "\<forall>n \<in> set ['''', ''.'', ''..'']. existsSync (ensure_dir [(''/w'', Dir)] ''/w/.prism-attachments'') (path_join ''/w/.prism-attachments'' n)"
    by (simp only: list_all_iff)
  have p: "dir_prefix ''/w/.prism-attachments'' = ''/w/.prism-attachments/''"
    by code_simp
  have n: "map sv_filename ?saved = [''.._.._etc_passwd'', ''_root_.ssh_id'', ''.._1'']"
    by code_simp
  from attachments_staged_inside [where fs = "[(''/w'', Dir)]" and outputDir = "''/w/.prism-attachments''"
         and attachments = hostile_attachments] h'
  have "\<forall>e \<in> set ?saved. sv_filepath e = dir_prefix ''/w/.prism-attachments'' @ sv_filename e"
    by blast
  then have i: "list_all (\<lambda>e. sv_filepath e = dir_prefix ''/w/.prism-attachments'' @ sv_filename e) ?saved"
    by (simp only: list_all_iff)
  from h p n i show ?thesis by (intro conjI)
qed

end
